theory Spec2Isabelle
  imports Complex_Main "HOL-Library.Word" "HOL-Library.AList" "HOL-Library.Log_Nat"
    "HOL-Library.Code_Target_Nat"
begin

section \<open>Strings\<close>

text \<open>
  A JavaScript string is a sequence of UTF-16 code units; \<open>length\<close>, \<open>slice\<close>,
  \<open>startsWith\<close> and a regular expression without the \<open>u\<close> flag all count and match code
  units. A string is therefore a list of 16-bit words. \<open>js\<close> embeds an ASCII literal.
\<close>

type_synonym unit16 = "16 word"

type_synonym jsstring = "unit16 list"

definition js :: "string \<Rightarrow> jsstring" where
  "js s = map (\<lambda>c. of_nat (of_char c)) s"

text \<open>
  \<open>a || b\<close> on strings: the empty string is the only falsy string, so the right operand
  is taken exactly when the left one is empty. \<open>or_undefined\<close> is the same operator when
  the left operand may also be \<open>undefined\<close> (a missing property, header or variable).
\<close>

definition or_else :: "jsstring \<Rightarrow> jsstring \<Rightarrow> jsstring" where
  "or_else a b = (if a = [] then b else a)"

definition or_undefined :: "jsstring option \<Rightarrow> jsstring \<Rightarrow> jsstring" where
  "or_undefined a b = (case a of None \<Rightarrow> b | Some v \<Rightarrow> or_else v b)"

text \<open>
  A code point above \<open>U+FFFF\<close> is a pair of code units, a high surrogate followed by
  a low one.
\<close>

definition high_surrogate :: "unit16 \<Rightarrow> bool" where
  "high_surrogate c = (0xD800 \<le> c \<and> c \<le> 0xDBFF)"

definition low_surrogate :: "unit16 \<Rightarrow> bool" where
  "low_surrogate c = (0xDC00 \<le> c \<and> c \<le> 0xDFFF)"

definition startsWith :: "jsstring \<Rightarrow> jsstring \<Rightarrow> bool" where
  "startsWith s t = (take (length t) s = t)"

definition endsWith :: "jsstring \<Rightarrow> jsstring \<Rightarrow> bool" where
  "endsWith s t = (length t \<le> length s \<and> drop (length s - length t) s = t)"

section \<open>Filename sanitizer\<close>

text \<open>
  \<^verbatim>\<open>return (name || "").replace(/[^\w\-\.]/g, "_");\<close>

  The pattern is a negated character class with three members: \<open>\w\<close> (without the
  \<open>i\<close> and \<open>u\<close> flags exactly \<open>[A-Za-z0-9_]\<close>), an escaped hyphen and an escaped dot.
  It matches one code unit at a time, so the global replace walks the string once and
  puts the replacement text in place of every matching unit.
\<close>

datatype class_atom = WordClass | Literal unit16

definition isWordChar :: "unit16 \<Rightarrow> bool" where
  "isWordChar c =
     ((0x61 \<le> c \<and> c \<le> 0x7A) \<or> (0x41 \<le> c \<and> c \<le> 0x5A) \<or>
      (0x30 \<le> c \<and> c \<le> 0x39) \<or> c = 0x5F)"

fun atom_matches :: "class_atom \<Rightarrow> unit16 \<Rightarrow> bool" where
  "atom_matches WordClass c = isWordChar c"
| "atom_matches (Literal l) c = (c = l)"

definition negated_class :: "class_atom list \<Rightarrow> unit16 \<Rightarrow> bool" where
  "negated_class atoms c = (\<not> list_ex (\<lambda>a. atom_matches a c) atoms)"

fun replace_global :: "(unit16 \<Rightarrow> bool) \<Rightarrow> jsstring \<Rightarrow> jsstring \<Rightarrow> jsstring" where
  "replace_global p r [] = []"
| "replace_global p r (c # cs) =
     (if p c then r @ replace_global p r cs else c # replace_global p r cs)"

definition sanitizeBaseName :: "jsstring \<Rightarrow> jsstring" where
  "sanitizeBaseName name =
     replace_global (negated_class [WordClass, Literal 0x2D, Literal 0x2E]) (js ''_'')
       (or_else name [])"

text \<open>
  The set the specification names: word characters, the hyphen and the dot, written
  out independently of the pattern.
\<close>

definition safe_unit :: "unit16 \<Rightarrow> bool" where
  "safe_unit c = (isWordChar c \<or> c = 0x2D \<or> c = 0x2E)"

section \<open>Node's path functions\<close>

text \<open>
  \<open>path.extname\<close>, \<open>path.basename\<close> and \<open>path.join\<close> belong to Node, not to this
  repository. They are given here as Node's POSIX implementation computes them (the
  separator is the slash only).

  The last portion of a path is what remains after dropping trailing slashes and
  everything up to the last slash before them.

  \<open>extname\<close> is the text from the last dot of the last portion to its end. It is empty
  when the portion has no dot, when its only dot is its first code unit, and when the
  portion is \<open>..\<close>.

  \<open>basename p s\<close> is the last portion, without the suffix \<open>s\<close> when \<open>s\<close> is a proper
  suffix of it. An absent or empty suffix, or one longer than the path, is ignored; a
  suffix equal to the whole path gives the empty string; and when the last portion
  ends inside the suffix the scan runs off the portion and the trailing slashes stay.
\<close>

definition slash :: unit16 where
  "slash = 0x2F"

definition dot :: unit16 where
  "dot = 0x2E"

definition last_portion :: "jsstring \<Rightarrow> jsstring" where
  "last_portion p = rev (takeWhile (\<lambda>c. c \<noteq> slash) (dropWhile (\<lambda>c. c = slash) (rev p)))"

definition after_last :: "unit16 \<Rightarrow> jsstring \<Rightarrow> jsstring" where
  "after_last d b = rev (takeWhile (\<lambda>c. c \<noteq> d) (rev b))"

definition extname :: "jsstring \<Rightarrow> jsstring" where
  "extname p =
     (let b = last_portion p
      in if dot \<notin> set b then []
         else if Suc (length (after_last dot b)) = length b then []
         else if b = [dot, dot] then []
         else dot # after_last dot b)"

definition basename :: "jsstring \<Rightarrow> jsstring \<Rightarrow> jsstring" where
  "basename p s =
     (let b = last_portion p
      in if s = [] \<or> length p < length s then b
         else if s = p then []
         else if endsWith b s then (if s = b then b else take (length b - length s) b)
         else if endsWith s b then b @ takeWhile (\<lambda>c. c = slash) (rev p)
         else b)"

text \<open>
  A directory is an absolute, normalised path: the list of its components.
  \<open>path.join dir name\<close> appends the components of \<open>name\<close> one by one; an empty
  component and \<open>.\<close> change nothing, \<open>..\<close> steps to the parent.
\<close>

type_synonym path = "jsstring list"

fun split_slash :: "jsstring \<Rightarrow> jsstring list" where
  "split_slash [] = [[]]"
| "split_slash (c # cs) =
     (if c = slash then [] # split_slash cs
      else (case split_slash cs of [] \<Rightarrow> [[c]] | x # xs \<Rightarrow> (c # x) # xs))"

definition path_step :: "path \<Rightarrow> jsstring \<Rightarrow> path" where
  "path_step d c =
     (if c = [] \<or> c = [dot] then d else if c = [dot, dot] then butlast d else d @ [c])"

definition path_join :: "path \<Rightarrow> jsstring \<Rightarrow> path" where
  "path_join d name = foldl path_step d (split_slash name)"


section \<open>Storage Namer\<close>

text \<open>
  \<^verbatim>\<open>const ALLOWED = { "image/jpeg": ".jpg", "image/png": ".png",
                    "image/gif": ".gif", "video/mp4": ".mp4" };\<close>

  The multipart parser hands over the declared type of a part as the text
  \<open>type/subtype\<close>. \<open>ALLOWED[file.mimetype]\<close> is a property lookup on an object
  literal, and no property the literal inherits has a slash in its name, so on a
  declared type the lookup sees the four own properties only.
\<close>

datatype mime = Mime jsstring jsstring

fun mime_str :: "mime \<Rightarrow> jsstring" where
  "mime_str (Mime t s) = t @ js ''/'' @ s"

definition ALLOWED :: "(jsstring \<times> jsstring) list" where
  "ALLOWED =
     [(js ''image/jpeg'', js ''.jpg''),
      (js ''image/png'', js ''.png''),
      (js ''image/gif'', js ''.gif''),
      (js ''video/mp4'', js ''.mp4'')]"

definition ALLOWED_at :: "mime \<Rightarrow> jsstring option" where
  "ALLOWED_at m = map_of ALLOWED (mime_str m)"

text \<open>
  The file object multer passes to \<open>fileFilter\<close> and to \<open>filename\<close>, and the number of
  bytes the part's body holds.
\<close>

record upload_part =
  fieldname :: jsstring
  originalname :: jsstring
  mimetype :: mime
  content_length :: nat

text \<open>
  \<^verbatim>\<open>filename: (req, file, cb) => {
    const mime = file.mimetype;
    const orig = file.originalname || "file";
    const defExt = ALLOWED[mime] || path.extname(orig) || "";
    let ext = path.extname(orig) || defExt || "";
    if (!ext) ext = ALLOWED[mime] || "";
    const base = sanitizeBaseName(path.basename(orig, path.extname(orig))) || "file";
    const finalName = `${base}_${uuid()}${ext}`;
    cb(null, finalName);
  }\<close>

  The first argument is the string the call of \<open>uuid()\<close> returns.
\<close>

definition storage_filename :: "jsstring \<Rightarrow> upload_part \<Rightarrow> jsstring" where
  "storage_filename uuid f =
     (let mime = mimetype f;
          orig = or_else (originalname f) (js ''file'');
          defExt = or_else (or_undefined (ALLOWED_at mime) (extname orig)) [];
          ext0 = or_else (or_else (extname orig) defExt) [];
          ext = (if ext0 = [] then or_undefined (ALLOWED_at mime) [] else ext0);
          base = or_else (sanitizeBaseName (basename orig (extname orig))) (js ''file'');
          finalName = base @ js ''_'' @ uuid @ ext
      in finalName)"

text \<open>
  The algorithm as the specification words it: the extension is the one of the
  original filename if it has one, otherwise the one of the MIME table, otherwise
  empty; the base is the sanitized original filename without its extension, or
  \<open>file\<close> when that is empty.
\<close>

definition allow_list :: "jsstring list" where
  "allow_list = [js ''image/jpeg'', js ''image/png'', js ''image/gif'', js ''video/mp4'']"

definition namer_extension :: "jsstring \<Rightarrow> mime \<Rightarrow> jsstring" where
  "namer_extension name m =
     (if extname name \<noteq> [] then extname name
      else case ALLOWED_at m of Some e \<Rightarrow> e | None \<Rightarrow> [])"


definition namer_base :: "jsstring \<Rightarrow> jsstring" where
  "namer_base stripped =
     (if sanitizeBaseName stripped = [] then js ''file'' else sanitizeBaseName stripped)"

section \<open>Numbers\<close>

text \<open>
  A JavaScript number is an IEEE 754 double. A finite double is a rational number
  \<open>m * 2 ^ e\<close> with \<open>\<bar>m\<bar> < 2 ^ 53\<close> and \<open>- 1074 \<le> e\<close>, and an arithmetic operation returns
  the exact result rounded to the nearest double, a tie going to the even mantissa.
  \<open>fl\<close> is that rounding: \<open>binade x\<close> is the exponent of the power of two at or below
  \<open>\<bar>x\<bar>\<close>, the doubles around \<open>x\<close> are \<open>2 ^ (binade x - 52)\<close> apart (\<open>2 ^ - 1074\<close> for the
  subnormal ones), and \<open>x\<close> is rounded to a multiple of that step. Overflow to
  \<open>Infinity\<close> is left out: the numbers computed here are differences of timestamps
  and a product that is only compared with such a difference, and the comparison
  comes out the same for \<open>Infinity\<close> and for the finite product.
\<close>

definition round_even :: "rat \<Rightarrow> int" where
  "round_even m =
     (let f = \<lfloor>m\<rfloor>; d = m - of_int f
      in if d < 1 / 2 then f else if 1 / 2 < d then f + 1 else if even f then f else f + 1)"

fun doublings :: "nat \<Rightarrow> rat \<Rightarrow> int" where
  "doublings 0 a = 0"
| "doublings (Suc n) a = (if a < 1 then doublings n (2 * a) - 1 else 0)"

definition binade :: "rat \<Rightarrow> int" where
  "binade x = (let a = \<bar>x\<bar> in if 1 \<le> a then bitlen \<lfloor>a\<rfloor> - 1 else doublings 1074 a)"

definition pow2 :: "int \<Rightarrow> rat" where
  "pow2 e = (if 0 \<le> e then 2 ^ nat e else 1 / 2 ^ nat (- e))"

definition fl :: "rat \<Rightarrow> rat" where
  "fl x =
     (if x = 0 then 0
      else let e = max (binade x - 52) (- 1074)
           in of_int (round_even (x / pow2 e)) * pow2 e)"


section \<open>Filesystem\<close>

text \<open>
  The disk is a finite map from paths to nodes, kept as an association list
  (\<open>map_of\<close> reads it). \<open>mtimeMs\<close> is the number \<open>fs.Stats\<close> reports: a double holding
  milliseconds, possibly fractional.
\<close>

datatype node_kind = RegularFile | Directory | SymbolicLink | OtherKind

record inode =
  kind :: node_kind
  bytes :: nat
  mtimeMs :: rat

type_synonym filesystem = "(path \<times> inode) list"

datatype errno =
  ENOENT | ENOTDIR | EISDIR | EACCES | EPERM | EBUSY | EIO | EROFS | ENAMETOOLONG | ENOSPC

text \<open>
  What the program can throw or pass to \<open>next\<close>: a filesystem error with its code,
  system call and path; an error of multer with its code and field; a plain
  \<open>Error\<close> with its message; the \<open>URIError\<close> of \<open>encodeURIComponent\<close>; the \<open>TypeError\<close>
  with which Node refuses a path that holds a NUL code unit.
\<close>

datatype thrown =
  FsError errno jsstring path
| MulterError jsstring jsstring
| PlainError jsstring
| URIError
| NullByteError path





text \<open>
  What the program cannot decide itself: the strings successive calls of \<open>uuid()\<close>
  return, and the failures the operating system reports when a path is unlinked,
  opened for writing, examined with \<open>stat\<close> or listed (permissions, a busy, full or
  read-only volume, an I/O error).
\<close>

record os =
  uuids :: "nat \<Rightarrow> jsstring"
  unlink_fault :: "path \<Rightarrow> errno option"
  write_fault :: "path \<Rightarrow> errno option"
  stat_fault :: "path \<Rightarrow> errno option"
  scandir_fault :: "path \<Rightarrow> errno option"


definition unlink :: "os \<Rightarrow> filesystem \<Rightarrow> path \<Rightarrow> thrown + filesystem" where
  "unlink env fs p =
     (case unlink_fault env p of
        Some e \<Rightarrow> Inl (FsError e (js ''unlink'') p)
      | None \<Rightarrow>
          (case map_of fs p of
             None \<Rightarrow> Inl (FsError ENOENT (js ''unlink'') p)
           | Some n \<Rightarrow>
               if kind n = Directory then Inl (FsError EISDIR (js ''unlink'') p)
               else Inr (AList.delete p fs)))"

text \<open>
  Opening a path for writing (\<open>fs.createWriteStream\<close>, flags \<open>w\<close>) creates the file or
  empties the one that is there. It fails when the parent is missing or is a file,
  when the name is longer than \<open>NAME_MAX\<close> bytes (255 on Linux; the name goes to the
  system in UTF-8, a surrogate without its partner as the three bytes of U+FFFD),
  when the path names a directory, and when the system reports a fault. The error,
  if any, is the result. The disk does not say where a symbolic link leads, so a
  link in the place of the parent is taken to lead to a directory, and a link at the
  path itself is replaced like a file.
\<close>

definition unit_bytes :: "unit16 \<Rightarrow> nat" where
  "unit_bytes c = (if c < 0x80 then 1 else if c < 0x800 then 2 else 3)"

fun byteLength :: "jsstring \<Rightarrow> nat" where
  "byteLength [] = 0"
| "byteLength [c] = unit_bytes c"
| "byteLength (c # d # cs) =
     (if high_surrogate c \<and> low_surrogate d then 4 + byteLength cs
      else unit_bytes c + byteLength (d # cs))"

definition NAME_MAX :: nat where
  "NAME_MAX = 255"

definition open_write :: "os \<Rightarrow> filesystem \<Rightarrow> path \<Rightarrow> errno option" where
  "open_write env fs p =
     (if p = [] then Some EISDIR
      else case map_of fs (butlast p) of
             None \<Rightarrow> Some ENOENT
           | Some d \<Rightarrow>
               if kind d = RegularFile \<or> kind d = OtherKind then Some ENOTDIR
               else if NAME_MAX < byteLength (last p) then Some ENAMETOOLONG
               else (case map_of fs p of
                       None \<Rightarrow> write_fault env p
                     | Some n \<Rightarrow> if kind n = Directory then Some EISDIR else write_fault env p))"




text \<open>
  A well-formed disk names every node by components that are not empty, not \<open>.\<close>,
  not \<open>..\<close> and hold no slash.
\<close>

definition valid_name :: "jsstring \<Rightarrow> bool" where
  "valid_name c = (c \<noteq> [] \<and> c \<noteq> [dot] \<and> c \<noteq> [dot, dot] \<and> slash \<notin> set c)"


section \<open>Configuration, requests and responses\<close>

text \<open>
  The constants read from the environment at start-up. \<open>TOKEN\<close> is empty when
  \<open>UPLOAD_TOKEN\<close> is unset or empty; \<open>PUBLIC_BASE\<close> may be undefined;
  \<open>MAX_AGE_HOURS\<close> is what \<open>parseInt\<close> returned, \<open>None\<close> standing for \<open>NaN\<close>.
\<close>

record config =
  UPLOAD_DIR :: path
  TOKEN :: jsstring
  PUBLIC_BASE :: "jsstring option"
  MAX_AGE_HOURS :: "int option"

datatype json =
  JBool bool
| JNumber nat
| JString jsstring
| JArray "json list"
| JObject "(string \<times> json) list"

text \<open>
  A response is a status code with a JSON body (\<open>res.status(..).json(..)\<close>), or the
  page of Express's default error handler, which answers an error passed to \<open>next\<close>
  or thrown by a handler with status 500 when the error carries no status.
\<close>

datatype body = Json json | ErrorPage thrown

record response =
  status :: nat
  body :: body

text \<open>
  A request: its headers (names in lower case), its protocol, the file parts of its
  multipart body in the order they arrive (a part that comes without a filename has
  the empty \<open>originalname\<close>), and the \<open>:name\<close> parameter of the route.
\<close>

record request =
  headers :: "(jsstring \<times> jsstring) list"
  protocol :: jsstring
  parts :: "upload_part list"
  params_name :: jsstring

text \<open>The state of the process: the disk and the number of calls of \<open>uuid()\<close> so far.\<close>

record server =
  disk :: filesystem
  uuid_calls :: nat

definition res_json :: "nat \<Rightarrow> json \<Rightarrow> response" where
  "res_json code v = \<lparr>status = code, body = Json v\<rparr>"

definition default_error_handler :: "thrown \<Rightarrow> response" where
  "default_error_handler err = \<lparr>status = 500, body = ErrorPage err\<rparr>"

definition req_get :: "request \<Rightarrow> jsstring \<Rightarrow> jsstring option" where
  "req_get req name = map_of (headers req) name"

text \<open>
  \<^verbatim>\<open>function requireBearer(req, res, next) {
    if (!TOKEN) return res.status(500).json({ error: "UPLOAD_TOKEN not set" });
    const h = req.headers.authorization || "";
    const ok = h.startsWith("Bearer ") && h.slice(7) === TOKEN;
    if (!ok) return res.status(401).json({ error: "Unauthorized" });
    next();
  }\<close>

  The result is the response the middleware sends, or \<open>None\<close> when it calls \<open>next\<close>.
\<close>

definition requireBearer :: "config \<Rightarrow> request \<Rightarrow> response option" where
  "requireBearer cfg req =
     (if TOKEN cfg = [] then
        Some (res_json 500 (JObject [(''error'', JString (js ''UPLOAD_TOKEN not set''))]))
      else
        let h = or_undefined (req_get req (js ''authorization'')) [];
            ok = (startsWith h (js ''Bearer '') \<and> drop 7 h = TOKEN cfg)
        in if \<not> ok then Some (res_json 401 (JObject [(''error'', JString (js ''Unauthorized''))]))
           else None)"

section \<open>encodeURIComponent\<close>

text \<open>
  The built-in keeps the unreserved code units, writes every other code point as the
  percent-escaped bytes of its UTF-8 encoding, and throws a \<open>URIError\<close> on a surrogate
  that is not half of a pair (\<open>None\<close> here).
\<close>

definition uri_unreserved :: "unit16 \<Rightarrow> bool" where
  "uri_unreserved c =
     ((0x61 \<le> c \<and> c \<le> 0x7A) \<or> (0x41 \<le> c \<and> c \<le> 0x5A) \<or> (0x30 \<le> c \<and> c \<le> 0x39) \<or>
      c \<in> set (js ''-_.!~*'') \<or> c = 0x27 \<or> c = 0x28 \<or> c = 0x29)"

definition code_point :: "unit16 \<Rightarrow> unit16 \<Rightarrow> nat" where
  "code_point hi lo = 0x10000 + (unat hi - 0xD800) * 0x400 + (unat lo - 0xDC00)"

definition utf8 :: "nat \<Rightarrow> nat list" where
  "utf8 n =
     (if n < 0x80 then [n]
      else if n < 0x800 then [0xC0 + n div 64, 0x80 + n mod 64]
      else if n < 0x10000 then [0xE0 + n div 4096, 0x80 + n div 64 mod 64, 0x80 + n mod 64]
      else [0xF0 + n div 262144, 0x80 + n div 4096 mod 64, 0x80 + n div 64 mod 64,
            0x80 + n mod 64])"

definition hex_digit :: "nat \<Rightarrow> unit16" where
  "hex_digit d = js ''0123456789ABCDEF'' ! (d mod 16)"

definition percent :: "nat \<Rightarrow> jsstring" where
  "percent b = [0x25, hex_digit (b div 16), hex_digit b]"

definition escape :: "nat \<Rightarrow> jsstring" where
  "escape n = concat (map percent (utf8 n))"

fun encodeURIComponent :: "jsstring \<Rightarrow> jsstring option" where
  "encodeURIComponent [] = Some []"
| "encodeURIComponent [c] =
     (if uri_unreserved c then Some [c]
      else if high_surrogate c \<or> low_surrogate c then None
      else Some (escape (unat c)))"
| "encodeURIComponent (c # d # cs) =
     (if uri_unreserved c then map_option (\<lambda>r. c # r) (encodeURIComponent (d # cs))
      else if high_surrogate c then
        (if low_surrogate d then map_option (\<lambda>r. escape (code_point c d) @ r) (encodeURIComponent cs)
         else None)
      else if low_surrogate c then None
      else map_option (\<lambda>r. escape (unat c) @ r) (encodeURIComponent (d # cs)))"

section \<open>The multer middleware\<close>

text \<open>
  \<^verbatim>\<open>const upload = multer({
    storage,
    limits: { fileSize: 500 * 1024 * 1024 },
    fileFilter: (_req, file, cb) => {
      if (ALLOWED[file.mimetype]) cb(null, true);
      else cb(new Error("Only jpg/png/gif/mp4 allowed"));
    },
  });
  ... upload.fields([{ name: "file", maxCount: 1 }, { name: "files", maxCount: 20 }])\<close>

  multer is a library; what it does with these options is written out as its
  middleware (version 1.4.5-lts.1, over busboy 1.x) has it. The file parts are taken
  one after the other, in the order they arrive. A part without a filename is
  skipped before anything else is done with it. For every other part multer first
  checks the count left for the part's field (an unknown field has none), then calls
  \<open>fileFilter\<close>, and hands an accepted part to the storage engine, which names it and
  opens \<open>destination/filename\<close> for writing. The parser reports the limit as soon as
  the bytes received reach \<open>fileSize\<close>, so a part of exactly \<open>fileSize\<close> bytes is
  refused like a longer one, after the bytes up to the limit are written. On the
  first error multer unlinks the files this request has stored so far, ignoring what
  the unlinks report, and passes the error to \<open>next\<close>. Otherwise the handler finds the
  stored files under \<open>req.files\<close>, grouped by field name in arrival order.
\<close>

record stored_file =
  part :: upload_part
  filename :: jsstring
  stored_path :: path
  size_bytes :: nat

definition fileSize :: nat where
  "fileSize = 500 * 1024 * 1024"

definition upload_fields :: "(jsstring \<times> nat) list" where
  "upload_fields = [(js ''file'', 1), (js ''files'', 20)]"

definition fileFilter :: "upload_part \<Rightarrow> thrown option" where
  "fileFilter f =
     (if or_undefined (ALLOWED_at (mimetype f)) [] \<noteq> [] then None
      else Some (PlainError (js ''Only jpg/png/gif/mp4 allowed'')))"

definition wrappedFileFilter ::
  "(jsstring \<times> nat) list \<Rightarrow> upload_part \<Rightarrow> thrown + (jsstring \<times> nat) list" where
  "wrappedFileFilter filesLeft f =
     (case map_of filesLeft (fieldname f) of
        None \<Rightarrow> Inl (MulterError (js ''LIMIT_UNEXPECTED_FILE'') (fieldname f))
      | Some n \<Rightarrow>
          if n \<le> 0 then Inl (MulterError (js ''LIMIT_UNEXPECTED_FILE'') (fieldname f))
          else (case fileFilter f of
                  Some err \<Rightarrow> Inl err
                | None \<Rightarrow> Inr (AList.update (fieldname f) (n - 1) filesLeft)))"

fun removeUploadedFiles :: "os \<Rightarrow> stored_file list \<Rightarrow> filesystem \<Rightarrow> filesystem" where
  "removeUploadedFiles env [] fs = fs"
| "removeUploadedFiles env (f # rest) fs =
     removeUploadedFiles env rest
       (case unlink env fs (stored_path f) of Inl err \<Rightarrow> fs | Inr fs' \<Rightarrow> fs')"

definition abortWithError ::
  "os \<Rightarrow> thrown \<Rightarrow> stored_file list \<Rightarrow> server \<Rightarrow> (thrown + stored_file list) \<times> server" where
  "abortWithError env err uploadedFiles sv =
     (Inl err, sv\<lparr>disk := removeUploadedFiles env uploadedFiles (disk sv)\<rparr>)"

text \<open>
  The disk storage engine: \<open>destination\<close> is \<open>UPLOAD_DIR\<close>, the name comes from
  \<open>storage_filename\<close> with the next value of \<open>uuid()\<close>, and the path is opened for
  writing. Node refuses a path with a NUL code unit before it asks the system. An
  error of the open is the error of the part, and no file is left. Otherwise the
  file written is a regular file of the bytes received, modified now.
\<close>

definition handleFile ::
  "config \<Rightarrow> os \<Rightarrow> int \<Rightarrow> upload_part \<Rightarrow> server \<Rightarrow> (thrown + stored_file) \<times> server" where
  "handleFile cfg env now f sv =
     (let finalName = storage_filename (uuids env (uuid_calls sv)) f;
          finalPath = path_join (UPLOAD_DIR cfg) finalName;
          counted = sv\<lparr>uuid_calls := Suc (uuid_calls sv)\<rparr>
      in if 0 \<in> set finalName then (Inl (NullByteError finalPath), counted)
         else case open_write env (disk sv) finalPath of
                Some e \<Rightarrow> (Inl (FsError e (js ''open'') finalPath), counted)
              | None \<Rightarrow>
                  let n = min (content_length f) fileSize;
                      node = \<lparr>kind = RegularFile, bytes = n, mtimeMs = of_int now\<rparr>
                  in (Inr \<lparr>part = f, filename = finalName, stored_path = finalPath, size_bytes = n\<rparr>,
                      counted\<lparr>disk := AList.update finalPath node (disk sv)\<rparr>))"

fun multer_parts ::
  "config \<Rightarrow> os \<Rightarrow> int \<Rightarrow> upload_part list \<Rightarrow> (jsstring \<times> nat) list \<Rightarrow> stored_file list \<Rightarrow>
     server \<Rightarrow> (thrown + stored_file list) \<times> server" where
  "multer_parts cfg env now [] filesLeft uploadedFiles sv = (Inr uploadedFiles, sv)"
| "multer_parts cfg env now (f # rest) filesLeft uploadedFiles sv =
     (if originalname f = [] then multer_parts cfg env now rest filesLeft uploadedFiles sv
      else
        case wrappedFileFilter filesLeft f of
          Inl err \<Rightarrow> abortWithError env err uploadedFiles sv
        | Inr filesLeft' \<Rightarrow>
            (case handleFile cfg env now f sv of
               (Inl err, sv') \<Rightarrow> abortWithError env err uploadedFiles sv'
             | (Inr stored, sv') \<Rightarrow>
                 if fileSize \<le> content_length f then
                   abortWithError env (MulterError (js ''LIMIT_FILE_SIZE'') (fieldname f))
                     (uploadedFiles @ [stored]) sv'
                 else multer_parts cfg env now rest filesLeft' (uploadedFiles @ [stored]) sv'))"

definition req_files :: "stored_file list \<Rightarrow> jsstring \<Rightarrow> stored_file list" where
  "req_files stored name = filter (\<lambda>f. fieldname (part f) = name) stored"

section \<open>The upload route\<close>

text \<open>
  \<^verbatim>\<open>app.post("/upload", requireBearer, upload.fields([...]), (req, res) => {
    const host =
      PUBLIC_BASE || `${req.protocol}://${req.get("x-forwarded-host") || req.get("host")}`;
    const collected = [];
    const add = (f) => {
      collected.push({
        url: `${host}/files/${encodeURIComponent(f.filename)}`,
        filename: f.filename, size: f.size, mimetype: f.mimetype,
      });
    };
    if (req.files?.file) req.files.file.forEach(add);
    if (req.files?.files) req.files.files.forEach(add);
    if (collected.length === 0) return res.status(400).json({ error: "No files received" });
    return res.json({ uploaded: collected });
  });\<close>
\<close>

definition or_header :: "jsstring option \<Rightarrow> jsstring option \<Rightarrow> jsstring option" where
  "or_header a b = (case a of None \<Rightarrow> b | Some v \<Rightarrow> if v = [] then b else Some v)"

definition interpolate :: "jsstring option \<Rightarrow> jsstring" where
  "interpolate v = (case v of None \<Rightarrow> js ''undefined'' | Some s \<Rightarrow> s)"

definition request_host :: "config \<Rightarrow> request \<Rightarrow> jsstring" where
  "request_host cfg req =
     or_undefined (PUBLIC_BASE cfg)
       (protocol req @ js ''://'' @
          interpolate (or_header (req_get req (js ''x-forwarded-host'')) (req_get req (js ''host''))))"

definition entry :: "jsstring \<Rightarrow> stored_file \<Rightarrow> jsstring \<Rightarrow> json" where
  "entry host f encoded =
     JObject
       [(''url'', JString (host @ js ''/files/'' @ encoded)),
        (''filename'', JString (filename f)),
        (''size'', JNumber (size_bytes f)),
        (''mimetype'', JString (mime_str (mimetype (part f))))]"

definition add :: "jsstring \<Rightarrow> stored_file \<Rightarrow> thrown + json" where
  "add host f =
     (case encodeURIComponent (filename f) of
        None \<Rightarrow> Inl URIError
      | Some encoded \<Rightarrow> Inr (entry host f encoded))"

fun forEach_add :: "jsstring \<Rightarrow> stored_file list \<Rightarrow> json list \<Rightarrow> thrown + json list" where
  "forEach_add host [] collected = Inr collected"
| "forEach_add host (f # rest) collected =
     (case add host f of
        Inl err \<Rightarrow> Inl err
      | Inr e \<Rightarrow> forEach_add host rest (collected @ [e]))"

definition upload_handler :: "config \<Rightarrow> request \<Rightarrow> stored_file list \<Rightarrow> thrown + response" where
  "upload_handler cfg req stored =
     (let host = request_host cfg req
      in case forEach_add host (req_files stored (js ''file'')) [] of
           Inl err \<Rightarrow> Inl err
         | Inr collected1 \<Rightarrow>
             (case forEach_add host (req_files stored (js ''files'')) collected1 of
                Inl err \<Rightarrow> Inl err
              | Inr collected \<Rightarrow>
                  if length collected = 0 then
                    Inr (res_json 400 (JObject [(''error'', JString (js ''No files received''))]))
                  else Inr (res_json 200 (JObject [(''uploaded'', JArray collected)]))))"

definition post_upload :: "config \<Rightarrow> os \<Rightarrow> int \<Rightarrow> request \<Rightarrow> server \<Rightarrow> response \<times> server" where
  "post_upload cfg env now req sv =
     (case requireBearer cfg req of
        Some res \<Rightarrow> (res, sv)
      | None \<Rightarrow>
          (case multer_parts cfg env now (parts req) upload_fields [] sv of
             (Inl err, sv') \<Rightarrow> (default_error_handler err, sv')
           | (Inr stored, sv') \<Rightarrow>
               (case upload_handler cfg req stored of
                  Inl err \<Rightarrow> (default_error_handler err, sv')
                | Inr res \<Rightarrow> (res, sv'))))"

text \<open>
  The words of the claims about uploads: the parts that come with a filename; a part
  whose declared type is in the allow-list; a part multer takes (allowed and shorter
  than the size limit); a list of parts that respects the fields and their counts;
  the count left for a field, also after a list of parts has been taken; a file whose
  name holds no NUL code unit and whose path can be opened for writing.
\<close>

definition named :: "upload_part list \<Rightarrow> upload_part list" where
  "named ps = filter (\<lambda>f. originalname f \<noteq> []) ps"


definition allowed_part :: "upload_part \<Rightarrow> bool" where
  "allowed_part f = (mime_str (mimetype f) \<in> set allow_list)"

definition storable :: "upload_part \<Rightarrow> bool" where
  "storable f = (allowed_part f \<and> content_length f < fileSize)"

definition fields_fit :: "upload_part list \<Rightarrow> bool" where
  "fields_fit ps =
     (list_all (\<lambda>f. map_of upload_fields (fieldname f) \<noteq> None) ps \<and>
      list_all (\<lambda>e. length (filter (\<lambda>f. fieldname f = fst e) ps) \<le> snd e) upload_fields)"

definition room :: "(jsstring \<times> nat) list \<Rightarrow> jsstring \<Rightarrow> nat" where
  "room filesLeft name = (case map_of filesLeft name of None \<Rightarrow> 0 | Some n \<Rightarrow> n)"

definition fits :: "(jsstring \<times> nat) list \<Rightarrow> upload_part list \<Rightarrow> bool" where
  "fits filesLeft ps = (\<forall>name. length (filter (\<lambda>f. fieldname f = name) ps) \<le> room filesLeft name)"


definition writable :: "os \<Rightarrow> filesystem \<Rightarrow> stored_file \<Rightarrow> bool" where
  "writable env fs s = (0 \<notin> set (filename s) \<and> open_write env fs (stored_path s) = None)"

section \<open>The delete route\<close>




section \<open>The retention sweeper\<close>











section \<open>What a successful upload stores and answers\<close>

text \<open>
  A string is well-formed UTF-16 when every high surrogate is followed by a low one
  and no low surrogate stands alone; a decoder of multipart headers yields only such
  strings. A version 4 UUID is 36 code units, each a lower-case hexadecimal digit or
  a hyphen.
\<close>

fun well_formed :: "jsstring \<Rightarrow> bool" where
  "well_formed [] = True"
| "well_formed [c] = (\<not> high_surrogate c \<and> \<not> low_surrogate c)"
| "well_formed (c # d # cs) =
     (if high_surrogate c then low_surrogate d \<and> well_formed cs
      else \<not> low_surrogate c \<and> well_formed (d # cs))"

definition uuid_format :: "jsstring \<Rightarrow> bool" where
  "uuid_format u = (length u = 36 \<and> list_all (\<lambda>c. c \<in> set (js ''0123456789abcdef-'')) u)"

text \<open>
  The file object of the \<open>k\<close>-th call of \<open>uuid()\<close> for a part that is stored whole, the
  files of a list of parts stored from call \<open>k\<close> on, and a list of files in the order the
  handler lists them: the field \<open>file\<close> first, then the field \<open>files\<close>.
\<close>

definition stored_at :: "config \<Rightarrow> os \<Rightarrow> nat \<Rightarrow> upload_part \<Rightarrow> stored_file" where
  "stored_at cfg env k f =
     \<lparr>part = f, filename = storage_filename (uuids env k) f,
      stored_path = path_join (UPLOAD_DIR cfg) (storage_filename (uuids env k) f),
      size_bytes = content_length f\<rparr>"

fun stored_seq :: "config \<Rightarrow> os \<Rightarrow> nat \<Rightarrow> upload_part list \<Rightarrow> stored_file list" where
  "stored_seq cfg env k [] = []"
| "stored_seq cfg env k (f # rest) = stored_at cfg env k f # stored_seq cfg env (Suc k) rest"

definition listed :: "stored_file list \<Rightarrow> stored_file list" where
  "listed stored = req_files stored (js ''file'') @ req_files stored (js ''files'')"

section \<open>Concrete configurations, requests and disks\<close>

definition cfg0 :: config where
  "cfg0 = \<lparr>UPLOAD_DIR = [js ''data'', js ''uploads''], TOKEN = js ''secret'',
     PUBLIC_BASE = None, MAX_AGE_HOURS = Some 24\<rparr>"

definition cfg_unset :: config where
  "cfg_unset = cfg0\<lparr>TOKEN := []\<rparr>"

definition id1 :: jsstring where
  "id1 = js ''0f8fad5b-d9cb-469f-a165-70867728950e''"

definition id2 :: jsstring where
  "id2 = js ''7c9e6679-7425-40de-944b-e07fc1f90ae7''"

definition env0 :: os where
  "env0 = \<lparr>uuids = (\<lambda>k. if k = 0 then id1 else id2), unlink_fault = (\<lambda>p. None),
     write_fault = (\<lambda>p. None), stat_fault = (\<lambda>p. None), scandir_fault = (\<lambda>p. None)\<rparr>"


definition dir_node :: inode where
  "dir_node = \<lparr>kind = Directory, bytes = 0, mtimeMs = 0\<rparr>"

definition file_at :: "rat \<Rightarrow> inode" where
  "file_at t = \<lparr>kind = RegularFile, bytes = 10, mtimeMs = t\<rparr>"

definition up :: "string \<Rightarrow> path" where
  "up name = [js ''data'', js ''uploads'', js name]"

definition sv0 :: server where
  "sv0 = \<lparr>disk = [([], dir_node), ([js ''data''], dir_node), ([js ''data'', js ''uploads''], dir_node)],
     uuid_calls = 0\<rparr>"

definition sv1 :: server where
  "sv1 = \<lparr>disk = [([], dir_node), ([js ''data''], dir_node), ([js ''data'', js ''uploads''], dir_node),
      (up ''a.png'', file_at 1000), ([js ''data'', js ''secret.txt''], file_at 1000)],
     uuid_calls = 0\<rparr>"

definition photo_part :: upload_part where
  "photo_part = \<lparr>fieldname = js ''file'', originalname = js ''my photo.png'',
     mimetype = Mime (js ''image'') (js ''png''), content_length = 1024\<rparr>"

definition exe_part :: upload_part where
  "exe_part = \<lparr>fieldname = js ''file'', originalname = js ''photo.exe'',
     mimetype = Mime (js ''image'') (js ''png''), content_length = 1024\<rparr>"

definition noext_part :: upload_part where
  "noext_part = \<lparr>fieldname = js ''files'', originalname = js ''clip'',
     mimetype = Mime (js ''video'') (js ''mp4''), content_length = 7\<rparr>"


definition req0 :: request where
  "req0 = \<lparr>headers = [(js ''authorization'', js ''Bearer secret''), (js ''host'', js ''h.example'')],
     protocol = js ''https'', parts = [photo_part], params_name = []\<rparr>"

definition req_wrong :: request where
  "req_wrong = req0\<lparr>headers := [(js ''authorization'', js ''Bearer guess'')]\<rparr>"

definition req_anonymous :: request where
  "req_anonymous = req0\<lparr>headers := []\<rparr>"










definition req_two :: request where
  "req_two = req0\<lparr>parts := [noext_part, photo_part]\<rparr>"

definition req_none :: request where
  "req_none = req0\<lparr>parts := []\<rparr>"





section \<open>Properties of the sanitizer, the path functions and the Storage Namer\<close>

lemma js_underscore: "js ''_'' = [0x5F]"
  by (simp add: js_def)

lemma negated_class_safe:
  "negated_class [WordClass, Literal 0x2D, Literal 0x2E] c = (\<not> safe_unit c)"
  by (simp add: negated_class_def safe_unit_def)

lemma safe_unit_underscore: "safe_unit 0x5F"
  by (simp add: safe_unit_def isWordChar_def)

lemma replace_global_one:
  "replace_global p [u] s = map (\<lambda>c. if p c then u else c) s"
  by (induction s) simp_all

lemma sanitizeBaseName_map:
  "sanitizeBaseName s = map (\<lambda>c. if safe_unit c then c else 0x5F) s"
  by (simp add: sanitizeBaseName_def or_else_def js_underscore replace_global_one
      negated_class_safe)

lemma sanitizeBaseName_safe: "list_all safe_unit (sanitizeBaseName s)"
  by (induction s) (simp_all add: sanitizeBaseName_map safe_unit_underscore)

lemma sanitizeBaseName_fixed: "list_all safe_unit s \<Longrightarrow> sanitizeBaseName s = s"
  by (simp add: sanitizeBaseName_map list_all_iff map_idI)

text \<open>
  Claim C4. The sanitizer is defined on every string (no branch of it raises), its
  result has the length of its input, every position holds the input's code unit when
  that is a word character, a hyphen or a dot and an underscore otherwise, and so the
  result holds only code units of that set. A character is a UTF-16 code unit, as the
  pattern matches them.
\<close>

theorem sanitize_one_for_one:
  "length (sanitizeBaseName s) = length s \<and>
   (\<forall>i < length s. sanitizeBaseName s ! i = (if safe_unit (s ! i) then s ! i else 0x5F)) \<and>
   (\<forall>c \<in> set (sanitizeBaseName s). safe_unit c)"
proof (intro conjI)
  show "length (sanitizeBaseName s) = length s"
    by (simp add: sanitizeBaseName_map)
  show "\<forall>i < length s. sanitizeBaseName s ! i = (if safe_unit (s ! i) then s ! i else 0x5F)"
    by (simp add: sanitizeBaseName_map)
  show "\<forall>c \<in> set (sanitizeBaseName s). safe_unit c"
    using sanitizeBaseName_safe [of s] by (simp only: list_all_iff)
qed

theorem sanitize_one_for_one_witness:
  "sanitizeBaseName (js ''my photo/1.png'') = js ''my_photo_1.png'' \<and>
   length (sanitizeBaseName (js ''my photo/1.png'')) = 14 \<and>
   sanitizeBaseName (js ''my photo/1.png'') ! 2 = 0x5F \<and>
   safe_unit (sanitizeBaseName (js ''my photo/1.png'') ! 8)"
proof -
  have l: "length (js ''my photo/1.png'') = 14" by (simp add: js_def)
  have v: "sanitizeBaseName (js ''my photo/1.png'') = js ''my_photo_1.png''"
    by (simp add: sanitizeBaseName_map js_def safe_unit_def isWordChar_def)
  have m: "sanitizeBaseName (js ''my photo/1.png'') ! 8 \<in> set (sanitizeBaseName (js ''my photo/1.png''))"
    by (rule nth_mem) (simp add: sanitizeBaseName_map l)
  have a: "\<forall>c \<in> set (sanitizeBaseName (js ''my photo/1.png'')). safe_unit c"
    using sanitize_one_for_one [of "js ''my photo/1.png''"] by blast
  have s: "safe_unit (sanitizeBaseName (js ''my photo/1.png'') ! 8)"
    using a m by blast
  have u: "js ''my_photo_1.png'' ! 2 = 0x5F" by (simp add: js_def)
  have l': "length (js ''my_photo_1.png'') = 14" by (simp add: js_def)
  show ?thesis using l' v s u by simp
qed

text \<open>
  Claim C3, as stated: the result is empty exactly when the input is empty or holds
  only code units outside the set. The slash alone is such an input, and its result is
  one underscore.
\<close>

theorem sanitize_empty_iff_counterexample:
  "\<not> (sanitizeBaseName (js ''/'') = [] \<longleftrightarrow>
        (js ''/'' = [] \<or> list_all (\<lambda>c. \<not> safe_unit c) (js ''/'')))"
  by (simp add: sanitizeBaseName_map js_def safe_unit_def isWordChar_def)

text \<open>
  Claim C3, amended: the result is empty exactly when the input is empty; an input
  that holds only code units outside the set yields as many underscores as it has
  code units.
\<close>

theorem sanitize_empty_iff:
  "(sanitizeBaseName s = [] \<longleftrightarrow> s = []) \<and>
   (list_all (\<lambda>c. \<not> safe_unit c) s \<longrightarrow> sanitizeBaseName s = replicate (length s) 0x5F)"
  by (induction s) (simp_all add: sanitizeBaseName_map)

theorem sanitize_empty_iff_witness:
  "list_all (\<lambda>c. \<not> safe_unit c) (js ''/ '') \<and> sanitizeBaseName (js ''/ '') = js ''__'' \<and>
   sanitizeBaseName (js ''/ '') \<noteq> [] \<and> sanitizeBaseName [] = []"
proof -
  have h: "list_all (\<lambda>c. \<not> safe_unit c) (js ''/ '')"
    by (simp add: js_def safe_unit_def isWordChar_def)
  from sanitize_empty_iff [of "js ''/ ''"] sanitize_empty_iff [of "[]"] h show ?thesis
    by (simp add: js_def)
qed

text \<open>
  Claim C10. Sanitizing twice is sanitizing once: the first pass leaves only code units
  of the set (the underscores it wrote are word characters), and the second pass keeps
  each of them.
\<close>

theorem sanitize_idempotent: "sanitizeBaseName (sanitizeBaseName s) = sanitizeBaseName s"
  by (rule sanitizeBaseName_fixed) (rule sanitizeBaseName_safe)

theorem sanitize_idempotent_witness:
  "sanitizeBaseName (sanitizeBaseName (js ''a b'')) = js ''a_b''"
  using sanitize_idempotent [of "js ''a b''"]
  by (simp add: sanitizeBaseName_map js_def safe_unit_def isWordChar_def)

lemma after_last_free: "d \<notin> set (after_last d b)"
  by (auto simp: after_last_def dest: set_takeWhileD)

lemma after_last_subset: "set (after_last d b) \<subseteq> set b"
  by (auto simp: after_last_def dest: set_takeWhileD)

lemma after_last_split: "d \<in> set b \<Longrightarrow> \<exists>pre. b = pre @ d # after_last d b"
proof -
  assume m: "d \<in> set b"
  let ?r = "rev b"
  have "dropWhile (\<lambda>c. c \<noteq> d) ?r \<noteq> []" using m by (simp add: dropWhile_eq_Nil_conv)
  then obtain x xs where dw: "dropWhile (\<lambda>c. c \<noteq> d) ?r = x # xs" by (cases "dropWhile (\<lambda>c. c \<noteq> d) ?r") auto
  then have "x = d" using hd_dropWhile [of "\<lambda>c. c \<noteq> d" ?r] by force
  then have "?r = takeWhile (\<lambda>c. c \<noteq> d) ?r @ d # xs"
    using dw takeWhile_dropWhile_id [of "\<lambda>c. c \<noteq> d" ?r] by simp
  then have "rev ?r = rev (takeWhile (\<lambda>c. c \<noteq> d) ?r @ d # xs)" by simp
  then have "b = rev xs @ d # after_last d b" by (simp add: after_last_def)
  then show ?thesis by blast
qed

lemma last_portion_no_slash: "slash \<notin> set (last_portion p)"
  by (auto simp: last_portion_def dest: set_takeWhileD)

lemma last_portion_id: "slash \<notin> set p \<Longrightarrow> last_portion p = p"
proof -
  assume n: "slash \<notin> set p"
  have d: "dropWhile (\<lambda>c. c = slash) (rev p) = rev p"
    using n by (cases "rev p") auto
  have t: "takeWhile (\<lambda>c. c \<noteq> slash) (rev p) = rev p"
    using n by (auto simp: takeWhile_eq_all_conv)
  show ?thesis by (simp only: last_portion_def d t rev_rev_ident)
qed

lemma extname_shape:
  "extname p = [] \<or> (\<exists>t. extname p = dot # t \<and> dot \<notin> set t \<and> slash \<notin> set t)"
proof -
  have "slash \<notin> set (after_last dot (last_portion p))"
    using after_last_subset [of dot "last_portion p"] last_portion_no_slash [of p] by blast
  then show ?thesis
    using after_last_free [of dot "last_portion p"] by (auto simp: extname_def Let_def)
qed



lemma ALLOWED_nonempty: "ALLOWED_at m = Some e \<Longrightarrow> e \<noteq> []"
  by (auto simp: ALLOWED_at_def ALLOWED_def js_def split: if_splits)

lemma allow_list_keys: "mime_str m \<in> set allow_list \<longleftrightarrow> ALLOWED_at m \<noteq> None"
  by (auto simp: ALLOWED_at_def ALLOWED_def allow_list_def)

lemma extname_file: "extname (js ''file'') = []"
  by code_simp

lemma basename_file: "basename (js ''file'') [] = js ''file''"
  by code_simp

lemma sanitize_file: "sanitizeBaseName (js ''file'') = js ''file''"
  by (simp add: sanitizeBaseName_map js_def safe_unit_def isWordChar_def)

lemma sanitize_Nil: "sanitizeBaseName [] = []"
  by (simp add: sanitizeBaseName_map)

lemma js_file_nonempty: "js ''file'' \<noteq> []"
  by (simp add: js_def)

lemma extname_Nil: "extname [] = []"
  by code_simp

lemma basename_Nil: "basename [] [] = []"
  by code_simp

lemma storage_filename_eq:
  "storage_filename uuid f =
     namer_base (basename (originalname f) (extname (originalname f))) @ js ''_'' @ uuid @
       namer_extension (originalname f) (mimetype f)"
proof (cases "originalname f = []")
  case True
  then show ?thesis
    by (cases "ALLOWED_at (mimetype f)")
      (auto simp: storage_filename_def or_else_def or_undefined_def namer_base_def
        namer_extension_def extname_file basename_file sanitize_file extname_Nil basename_Nil
        sanitize_Nil js_file_nonempty Let_def dest: ALLOWED_nonempty)
next
  case False
  then show ?thesis
    by (cases "ALLOWED_at (mimetype f)")
      (auto simp: storage_filename_def or_else_def or_undefined_def namer_base_def
        namer_extension_def Let_def dest: ALLOWED_nonempty)
qed




lemma ALLOWED_shape:
  "ALLOWED_at m = Some e \<Longrightarrow> \<exists>t. e = dot # t \<and> dot \<notin> set t \<and> slash \<notin> set t"
  by (auto simp: ALLOWED_at_def ALLOWED_def js_def dot_def slash_def split: if_splits)

lemma namer_extension_shape:
  assumes "ALLOWED_at m = Some e"
  shows "\<exists>t. namer_extension name m = dot # t \<and> dot \<notin> set t \<and> slash \<notin> set t"
proof (cases "extname name = []")
  case True
  then show ?thesis using ALLOWED_shape [OF assms] assms by (simp add: namer_extension_def)
next
  case False
  then show ?thesis using extname_shape [of name] by (simp add: namer_extension_def)
qed

lemma safe_unit_not_slash: "safe_unit c \<Longrightarrow> c \<noteq> slash"
  by (auto simp: safe_unit_def isWordChar_def slash_def)

lemma namer_base_no_slash: "slash \<notin> set (namer_base s)"
proof -
  have "list_all safe_unit (js ''file'')" by (simp add: js_def safe_unit_def isWordChar_def)
  then have "list_all safe_unit (namer_base s)"
    using sanitizeBaseName_safe [of s] by (simp add: namer_base_def)
  then show ?thesis using safe_unit_not_slash by (auto simp: list_all_iff)
qed

lemma after_last_append:
  "d \<notin> set t \<Longrightarrow> after_last d (xs @ d # t) = t"
proof -
  assume n: "d \<notin> set t"
  have "takeWhile (\<lambda>c. c \<noteq> d) (rev t @ d # rev xs) = rev t @ takeWhile (\<lambda>c. c \<noteq> d) (d # rev xs)"
    by (rule takeWhile_append2) (use n in auto)
  then show ?thesis by (simp add: after_last_def)
qed

lemma extname_composed:
  assumes "slash \<notin> set x" and "x \<noteq> []" and "x \<noteq> [dot]" and "dot \<notin> set t" and "slash \<notin> set t"
  shows "extname (x @ dot # t) = dot # t"
proof -
  have ns: "slash \<notin> set (x @ dot # t)" using assms(1,5) by (simp add: slash_def dot_def)
  have lp: "last_portion (x @ dot # t) = x @ dot # t" using ns by (rule last_portion_id)
  have al: "after_last dot (x @ dot # t) = t" using assms(4) by (rule after_last_append)
  have "x @ dot # t \<noteq> [dot, dot]" using assms(2,3)
    by (cases x) (auto simp: append_eq_Cons_conv)
  then show ?thesis using assms(2) by (simp add: extname_def lp al Let_def)
qed

lemma underscore_not_dot: "js ''_'' \<noteq> [] \<and> dot \<notin> set (js ''_'') \<and> slash \<notin> set (js ''_'')"
  by (simp add: js_def dot_def slash_def)

lemma extname_storage_filename:
  assumes "ALLOWED_at (mimetype f) = Some e" and "dot \<notin> set uuid" and "slash \<notin> set uuid"
  shows "extname (storage_filename uuid f) = namer_extension (originalname f) (mimetype f)"
proof -
  let ?b = "namer_base (basename (originalname f) (extname (originalname f)))"
  from namer_extension_shape [OF assms(1), of "originalname f"]
  obtain t where t: "namer_extension (originalname f) (mimetype f) = dot # t"
    and dt: "dot \<notin> set t" and st: "slash \<notin> set t" by blast
  let ?x = "?b @ js ''_'' @ uuid"
  have n: "storage_filename uuid f = ?x @ dot # t"
    by (simp add: storage_filename_eq t)
  have x1: "slash \<notin> set ?x" using namer_base_no_slash assms(3) underscore_not_dot by simp
  have x2: "?x \<noteq> []" using underscore_not_dot by simp
  have "0x5F \<in> set ?x" by (simp add: js_def)
  moreover have "(0x5F :: unit16) \<notin> set [dot]" by (simp add: dot_def)
  ultimately have x3: "?x \<noteq> [dot]" by metis
  show ?thesis using extname_composed [OF x1 x2 x3 dt st] n t by simp
qed

text \<open>
  Claim C2, as stated: a part whose declared type is in the allow-list gets a name
  with the extension the MIME table gives that type. A part declared \<open>image/png\<close> and
  named \<open>photo.exe\<close> is stored under a name ending in \<open>.exe\<close>.
\<close>

theorem namer_extension_consistent_counterexample:
  "mime_str (mimetype exe_part) \<in> set allow_list \<and>
   ALLOWED_at (mimetype exe_part) = Some (js ''.png'') \<and>
   storage_filename id1 exe_part = js ''photo_0f8fad5b-d9cb-469f-a165-70867728950e.exe'' \<and>
   extname (storage_filename id1 exe_part) = js ''.exe'' \<and>
   \<not> endsWith (storage_filename id1 exe_part) (js ''.png'')"
  by code_simp

text \<open>
  Claim C2, amended: for a part whose declared type is in the allow-list, the name
  ends with the extension of the original filename when that has one, whatever the
  declared type, and with the extension of the MIME table otherwise; and that is the
  extension \<open>path.extname\<close> reads back from the name when the identifier holds no dot
  and no slash.
\<close>

theorem namer_extension_source:
  assumes "mime_str (mimetype f) \<in> set allow_list"
  shows "\<exists>e. ALLOWED_at (mimetype f) = Some e \<and>
     storage_filename uuid f =
       namer_base (basename (originalname f) (extname (originalname f))) @ js ''_'' @ uuid @
         (if extname (originalname f) = [] then e else extname (originalname f)) \<and>
     (dot \<notin> set uuid \<and> slash \<notin> set uuid \<longrightarrow>
        extname (storage_filename uuid f) =
          (if extname (originalname f) = [] then e else extname (originalname f)))"
proof -
  from assms obtain e where e: "ALLOWED_at (mimetype f) = Some e"
    using allow_list_keys [of "mimetype f"] by auto
  have x: "namer_extension (originalname f) (mimetype f) =
      (if extname (originalname f) = [] then e else extname (originalname f))"
    using e by (simp add: namer_extension_def)
  have a: "storage_filename uuid f =
       namer_base (basename (originalname f) (extname (originalname f))) @ js ''_'' @ uuid @
         (if extname (originalname f) = [] then e else extname (originalname f))"
    using storage_filename_eq [of uuid f] by (simp only: x)
  have b: "dot \<notin> set uuid \<and> slash \<notin> set uuid \<longrightarrow>
        extname (storage_filename uuid f) =
          (if extname (originalname f) = [] then e else extname (originalname f))"
    using extname_storage_filename [OF e, of uuid] by (simp only: x) blast
  show ?thesis using e a b by blast
qed

theorem namer_extension_source_witness:
  "mime_str (mimetype exe_part) \<in> set allow_list \<and> dot \<notin> set id1 \<and> slash \<notin> set id1 \<and>
   extname (storage_filename id1 exe_part) = js ''.exe'' \<and>
   mime_str (mimetype noext_part) \<in> set allow_list \<and>
   storage_filename id1 noext_part = js ''clip_0f8fad5b-d9cb-469f-a165-70867728950e.mp4'' \<and>
   extname (storage_filename id1 noext_part) = js ''.mp4''"
proof -
  have h1: "mime_str (mimetype exe_part) \<in> set allow_list" by code_simp
  have h2: "mime_str (mimetype noext_part) \<in> set allow_list" by code_simp
  have u: "dot \<notin> set id1 \<and> slash \<notin> set id1" by code_simp
  have e1: "extname (originalname exe_part) = js ''.exe''" by code_simp
  have e2: "extname (originalname noext_part) = []" by code_simp
  have a2: "ALLOWED_at (mimetype noext_part) = Some (js ''.mp4'')" by code_simp
  have b2: "namer_base (basename (originalname noext_part) (extname (originalname noext_part))) @ js ''_'' @ id1 @ js ''.mp4'' =
      js ''clip_0f8fad5b-d9cb-469f-a165-70867728950e.mp4''" by code_simp
  have n1: "js ''.exe'' \<noteq> []" by code_simp
  from namer_extension_source [OF h1, of id1] u e1 n1
  have r1: "extname (storage_filename id1 exe_part) = js ''.exe''" by auto
  from namer_extension_source [OF h2, of id1] u e2 a2
  have r2: "storage_filename id1 noext_part =
       namer_base (basename (originalname noext_part) (extname (originalname noext_part))) @ js ''_'' @ id1 @ js ''.mp4'' \<and>
     extname (storage_filename id1 noext_part) = js ''.mp4''" by auto
  have r3: "storage_filename id1 noext_part = js ''clip_0f8fad5b-d9cb-469f-a165-70867728950e.mp4''"
    using r2 b2 by (elim conjE) (rule trans)
  show ?thesis using h1 h2 u r1 r2 r3 by blast
qed

section \<open>Properties of the bearer check\<close>

lemma js_Bearer_length: "length (js ''Bearer '') = 7"
  by (simp add: js_def)

lemma bearer_ok:
  "(startsWith h (js ''Bearer '') \<and> drop 7 h = t) \<longleftrightarrow> h = js ''Bearer '' @ t"
proof
  assume a: "startsWith h (js ''Bearer '') \<and> drop 7 h = t"
  then have "take 7 h = js ''Bearer ''" by (simp add: startsWith_def js_Bearer_length)
  moreover have "take 7 h @ drop 7 h = h" by (rule append_take_drop_id)
  ultimately show "h = js ''Bearer '' @ t" using a by simp
next
  assume "h = js ''Bearer '' @ t"
  then show "startsWith h (js ''Bearer '') \<and> drop 7 h = t"
    by (simp add: startsWith_def js_Bearer_length)
qed

lemma js_Bearer_nonempty: "js ''Bearer '' @ t \<noteq> []"
  by (simp add: js_def)

lemma requireBearer_unset:
  "TOKEN cfg = [] \<Longrightarrow>
   requireBearer cfg req = Some (res_json 500 (JObject [(''error'', JString (js ''UPLOAD_TOKEN not set''))]))"
  by (simp add: requireBearer_def)

lemma requireBearer_pass:
  "TOKEN cfg \<noteq> [] \<Longrightarrow> req_get req (js ''authorization'') = Some (js ''Bearer '' @ TOKEN cfg) \<Longrightarrow>
   requireBearer cfg req = None"
  by (simp add: requireBearer_def bearer_ok or_undefined_def or_else_def js_Bearer_nonempty)

lemma requireBearer_reject:
  assumes "TOKEN cfg \<noteq> []" and "req_get req (js ''authorization'') \<noteq> Some (js ''Bearer '' @ TOKEN cfg)"
  shows "requireBearer cfg req = Some (res_json 401 (JObject [(''error'', JString (js ''Unauthorized''))]))"
proof -
  have "or_undefined (req_get req (js ''authorization'')) [] \<noteq> js ''Bearer '' @ TOKEN cfg"
    using assms(2) js_Bearer_nonempty [of "TOKEN cfg"]
    by (cases "req_get req (js ''authorization'')") (auto simp: or_undefined_def or_else_def)
  then show ?thesis using assms(1) by (simp add: requireBearer_def bearer_ok Let_def)
qed

text \<open>
  Claim C1. When no token is configured, \<open>POST /upload\<close> answers 500 with the error
  \<open>UPLOAD_TOKEN not set\<close>, whatever the request carries. When a token is configured and
  the Authorization header is missing or is not \<open>Bearer\<close>, a space and the token, it
  answers 401 \<open>Unauthorized\<close>. In both cases the server is left as it was: the check
  runs before multer reads any part, so no file is written.
\<close>

theorem upload_requires_bearer:
  "(TOKEN cfg = [] \<longrightarrow>
      post_upload cfg env now req sv =
        (res_json 500 (JObject [(''error'', JString (js ''UPLOAD_TOKEN not set''))]), sv)) \<and>
   (TOKEN cfg \<noteq> [] \<and> req_get req (js ''authorization'') \<noteq> Some (js ''Bearer '' @ TOKEN cfg) \<longrightarrow>
      post_upload cfg env now req sv =
        (res_json 401 (JObject [(''error'', JString (js ''Unauthorized''))]), sv))"
  by (simp add: post_upload_def requireBearer_unset requireBearer_reject)

theorem upload_requires_bearer_witness:
  "TOKEN cfg_unset = [] \<and>
   post_upload cfg_unset env0 1000 req0 sv0 =
     (\<lparr>status = 500, body = Json (JObject [(''error'', JString (js ''UPLOAD_TOKEN not set''))])\<rparr>, sv0) \<and>
   TOKEN cfg0 \<noteq> [] \<and>
   req_get req_wrong (js ''authorization'') \<noteq> Some (js ''Bearer '' @ TOKEN cfg0) \<and>
   post_upload cfg0 env0 1000 req_wrong sv0 =
     (\<lparr>status = 401, body = Json (JObject [(''error'', JString (js ''Unauthorized''))])\<rparr>, sv0) \<and>
   req_get req_anonymous (js ''authorization'') \<noteq> Some (js ''Bearer '' @ TOKEN cfg0) \<and>
   post_upload cfg0 env0 1000 req_anonymous sv0 =
     (\<lparr>status = 401, body = Json (JObject [(''error'', JString (js ''Unauthorized''))])\<rparr>, sv0)"
proof -
  have a: "TOKEN cfg_unset = []" by code_simp
  have b: "TOKEN cfg0 \<noteq> []" by code_simp
  have c: "req_get req_wrong (js ''authorization'') \<noteq> Some (js ''Bearer '' @ TOKEN cfg0)" by code_simp
  have d: "req_get req_anonymous (js ''authorization'') \<noteq> Some (js ''Bearer '' @ TOKEN cfg0)" by code_simp
  show ?thesis
    using a b c d upload_requires_bearer [of cfg_unset env0 1000 req0 sv0]
      upload_requires_bearer [of cfg0 env0 1000 req_wrong sv0]
      upload_requires_bearer [of cfg0 env0 1000 req_anonymous sv0]
    by (simp add: res_json_def)
qed

section \<open>Properties of the delete route\<close>

lemma split_slash_single: "slash \<notin> set cs \<Longrightarrow> split_slash cs = [cs]"
  by (induction cs) auto

lemma path_join_single: "slash \<notin> set name \<Longrightarrow> path_join d name = path_step d name"
  by (simp add: path_join_def split_slash_single)














section \<open>Properties of the rounding to doubles\<close>













section \<open>Properties of the retention sweeper\<close>

lemma path_join_valid: "valid_name n \<Longrightarrow> path_join d n = d @ [n]"
  by (simp add: valid_name_def path_join_single path_step_def)

















section \<open>Properties of rejected uploads\<close>

lemma fileFilter_allowed: "fileFilter f = None \<longleftrightarrow> allowed_part f"
proof (cases "ALLOWED_at (mimetype f)")
  case None
  then show ?thesis
    using allow_list_keys [of "mimetype f"]
    by (simp add: fileFilter_def allowed_part_def or_undefined_def)
next
  case (Some e)
  then have "e \<noteq> []" by (rule ALLOWED_nonempty)
  then show ?thesis
    using Some allow_list_keys [of "mimetype f"]
    by (simp add: fileFilter_def allowed_part_def or_undefined_def or_else_def)
qed


lemma fields_fit_fits: "fields_fit ps \<Longrightarrow> fits upload_fields ps"
proof -
  assume a: "fields_fit ps"
  have known: "\<And>f. f \<in> set ps \<Longrightarrow> fieldname f = js ''file'' \<or> fieldname f = js ''files''"
    using a by (auto simp: fields_fit_def list_all_iff upload_fields_def split: if_splits)
  have c1: "length (filter (\<lambda>f. fieldname f = js ''file'') ps) \<le> 1"
    and c2: "length (filter (\<lambda>f. fieldname f = js ''files'') ps) \<le> 20"
    using a by (simp_all add: fields_fit_def upload_fields_def)
  show "fits upload_fields ps"
    unfolding fits_def
  proof
    fix name
    show "length (filter (\<lambda>f. fieldname f = name) ps) \<le> room upload_fields name"
    proof (cases "name = js ''file'' \<or> name = js ''files''")
      case True
      then show ?thesis using c1 c2 by (auto simp: room_def upload_fields_def js_def)
    next
      case False
      then have "filter (\<lambda>f. fieldname f = name) ps = []" using known by (auto simp: filter_empty_conv)
      then show ?thesis by simp
    qed
  qed
qed

lemma fits_Cons:
  assumes "fits filesLeft (f # rest)"
  shows "\<exists>n. map_of filesLeft (fieldname f) = Some (Suc n) \<and>
             fits (AList.update (fieldname f) n filesLeft) rest"
proof -
  have "1 \<le> room filesLeft (fieldname f)"
    using assms unfolding fits_def by (metis (mono_tags, lifting) One_nat_def Suc_le_eq filter.simps(2) le_trans length_Cons less_eq_nat.simps(1) not_less_eq_eq)
  then obtain n where n: "map_of filesLeft (fieldname f) = Some (Suc n)"
    by (cases "map_of filesLeft (fieldname f)") (auto simp: room_def elim: Suc_le_D Nat.lessE dest!: Suc_le_D)
  have "fits (AList.update (fieldname f) n filesLeft) rest"
    unfolding fits_def
  proof
    fix name
    have le: "length (filter (\<lambda>g. fieldname g = name) (f # rest)) \<le> room filesLeft name"
      using assms by (simp add: fits_def)
    show "length (filter (\<lambda>g. fieldname g = name) rest) \<le> room (AList.update (fieldname f) n filesLeft) name"
    proof (cases "name = fieldname f")
      case True
      then show ?thesis using le n by (simp add: room_def AList.update_conv')
    next
      case False
      then show ?thesis using le by (simp add: room_def AList.update_conv')
    qed
  qed
  then show ?thesis using n by blast
qed

lemma wrappedFileFilter_pass:
  assumes "map_of filesLeft (fieldname f) = Some (Suc n)" and "allowed_part f"
  shows "wrappedFileFilter filesLeft f = Inr (AList.update (fieldname f) n filesLeft)"
  using assms fileFilter_allowed [of f] by (simp add: wrappedFileFilter_def)


lemma wrappedFileFilter_Inr: "wrappedFileFilter filesLeft f = Inr l \<Longrightarrow> allowed_part f"
  using fileFilter_allowed [of f]
  by (auto simp: wrappedFileFilter_def split: option.splits if_splits)

lemma fits_ConsI:
  assumes "map_of filesLeft (fieldname f) = Some (Suc n)"
    and "fits (AList.update (fieldname f) n filesLeft) rest"
  shows "fits filesLeft (f # rest)"
  unfolding fits_def
proof
  fix name
  have le: "length (filter (\<lambda>g. fieldname g = name) rest) \<le>
      room (AList.update (fieldname f) n filesLeft) name"
    using assms(2) by (simp add: fits_def)
  show "length (filter (\<lambda>g. fieldname g = name) (f # rest)) \<le> room filesLeft name"
  proof (cases "name = fieldname f")
    case True
    then show ?thesis using le assms(1) by (simp add: room_def AList.update_conv')
  next
    case False
    then show ?thesis using le by (simp add: room_def AList.update_conv')
  qed
qed

lemma wrappedFileFilter_Inr_room:
  assumes "wrappedFileFilter filesLeft f = Inr l"
  shows "\<exists>n. map_of filesLeft (fieldname f) = Some (Suc n) \<and>
             l = AList.update (fieldname f) n filesLeft \<and> room filesLeft (fieldname f) = Suc n"
proof -
  from assms obtain m where m: "map_of filesLeft (fieldname f) = Some m" and pos: "0 < m"
    and l: "l = AList.update (fieldname f) (m - 1) filesLeft"
    by (auto simp: wrappedFileFilter_def split: option.splits if_splits)
  from pos obtain n where "m = Suc n" by (cases m) simp_all
  then show ?thesis using m l by (simp add: room_def)
qed


lemma fits_fields_fit:
  assumes "fits upload_fields ps"
  shows "fields_fit ps"
proof -
  have r: "\<And>name. length (filter (\<lambda>f. fieldname f = name) ps) \<le> room upload_fields name"
    using assms by (simp add: fits_def)
  have known: "\<And>f. f \<in> set ps \<Longrightarrow> map_of upload_fields (fieldname f) \<noteq> None"
  proof
    fix f assume f: "f \<in> set ps" and n: "map_of upload_fields (fieldname f) = None"
    have "filter (\<lambda>g. fieldname g = fieldname f) ps \<noteq> []" using f by (auto simp: filter_empty_conv)
    then have "0 < length (filter (\<lambda>g. fieldname g = fieldname f) ps)" by simp
    moreover have "room upload_fields (fieldname f) = 0" using n by (simp add: room_def)
    ultimately show False using r [of "fieldname f"] by simp
  qed
  have c1: "length (filter (\<lambda>f. fieldname f = js ''file'') ps) \<le> 1"
    using r [of "js ''file''"] by (simp add: room_def upload_fields_def)
  have c2: "length (filter (\<lambda>f. fieldname f = js ''files'') ps) \<le> 20"
    using r [of "js ''files''"] by (simp add: room_def upload_fields_def js_def)
  show ?thesis
    using known c1 c2 by (simp add: fields_fit_def list_all_iff upload_fields_def)
qed

lemma handleFile_calls: "uuid_calls (snd (handleFile cfg env now f sv)) = Suc (uuid_calls sv)"
  by (simp add: handleFile_def Let_def split: option.splits)


lemma handleFile_Inr:
  assumes "handleFile cfg env now f sv = (Inr stored, sv')"
  shows "stored = \<lparr>part = f, filename = storage_filename (uuids env (uuid_calls sv)) f,
           stored_path = path_join (UPLOAD_DIR cfg) (storage_filename (uuids env (uuid_calls sv)) f),
           size_bytes = min (content_length f) fileSize\<rparr> \<and>
         disk sv' = AList.update (stored_path stored)
           \<lparr>kind = RegularFile, bytes = min (content_length f) fileSize, mtimeMs = of_int now\<rparr> (disk sv) \<and>
         uuid_calls sv' = Suc (uuid_calls sv) \<and> writable env (disk sv) stored"
  using assms by (auto simp: handleFile_def Let_def writable_def split: option.splits if_splits)

lemma handleFile_writable:
  assumes "writable env (disk sv) (stored_at cfg env (uuid_calls sv) f)" and "content_length f < fileSize"
  shows "handleFile cfg env now f sv =
     (Inr (stored_at cfg env (uuid_calls sv) f),
      sv\<lparr>uuid_calls := Suc (uuid_calls sv),
         disk := AList.update (stored_path (stored_at cfg env (uuid_calls sv) f))
                \<lparr>kind = RegularFile, bytes = content_length f, mtimeMs = of_int now\<rparr> (disk sv)\<rparr>)"
  using assms by (simp add: handleFile_def stored_at_def writable_def Let_def min_def)

lemma multer_skip:
  "originalname f = [] \<Longrightarrow>
   multer_parts cfg env now (f # rest) filesLeft uploaded sv =
     multer_parts cfg env now rest filesLeft uploaded sv"
  by simp

lemma multer_filtered:
  "originalname f \<noteq> [] \<Longrightarrow> wrappedFileFilter filesLeft f = Inl err \<Longrightarrow>
   multer_parts cfg env now (f # rest) filesLeft uploaded sv = abortWithError env err uploaded sv"
  by simp

lemma multer_unwritten:
  "originalname f \<noteq> [] \<Longrightarrow> wrappedFileFilter filesLeft f = Inr l \<Longrightarrow>
   handleFile cfg env now f sv = (Inl err, sv') \<Longrightarrow>
   multer_parts cfg env now (f # rest) filesLeft uploaded sv = abortWithError env err uploaded sv'"
  by simp

lemma multer_too_large:
  "originalname f \<noteq> [] \<Longrightarrow> wrappedFileFilter filesLeft f = Inr l \<Longrightarrow>
   handleFile cfg env now f sv = (Inr stored, sv') \<Longrightarrow> fileSize \<le> content_length f \<Longrightarrow>
   multer_parts cfg env now (f # rest) filesLeft uploaded sv =
     abortWithError env (MulterError (js ''LIMIT_FILE_SIZE'') (fieldname f)) (uploaded @ [stored]) sv'"
  by simp

lemma multer_taken:
  "originalname f \<noteq> [] \<Longrightarrow> wrappedFileFilter filesLeft f = Inr l \<Longrightarrow>
   handleFile cfg env now f sv = (Inr stored, sv') \<Longrightarrow> content_length f < fileSize \<Longrightarrow>
   multer_parts cfg env now (f # rest) filesLeft uploaded sv =
     multer_parts cfg env now rest l (uploaded @ [stored]) sv'"
  by simp

lemma multer_step_cases:
  obtains (skip) "originalname f = []"
  | (filtered) err where "originalname f \<noteq> []" and "wrappedFileFilter filesLeft f = Inl err"
  | (unwritten) l err sv' where "originalname f \<noteq> []" and "wrappedFileFilter filesLeft f = Inr l"
      and "handleFile cfg env now f sv = (Inl err, sv')"
  | (too_large) l stored sv' where "originalname f \<noteq> []" and "wrappedFileFilter filesLeft f = Inr l"
      and "handleFile cfg env now f sv = (Inr stored, sv')" and "fileSize \<le> content_length f"
  | (taken) l stored sv' where "originalname f \<noteq> []" and "wrappedFileFilter filesLeft f = Inr l"
      and "handleFile cfg env now f sv = (Inr stored, sv')" and "content_length f < fileSize"
proof (cases "originalname f = []")
  case True
  then show ?thesis by (rule skip)
next
  case False
  show ?thesis
  proof (cases "wrappedFileFilter filesLeft f")
    case (Inl err)
    with False show ?thesis by (rule filtered)
  next
    case (Inr l)
    obtain r sv' where h: "handleFile cfg env now f sv = (r, sv')"
      by (cases "handleFile cfg env now f sv")
    show ?thesis
    proof (cases r)
      case (Inl err)
      with h have "handleFile cfg env now f sv = (Inl err, sv')" by simp
      with False \<open>wrappedFileFilter filesLeft f = Inr l\<close> show ?thesis by (rule unwritten)
    next
      case (Inr stored)
      with h have h': "handleFile cfg env now f sv = (Inr stored, sv')" by simp
      show ?thesis
      proof (cases "fileSize \<le> content_length f")
        case True
        with False \<open>wrappedFileFilter filesLeft f = Inr l\<close> h' show ?thesis by (rule too_large)
      next
        case False
        then have "content_length f < fileSize" by simp
        with \<open>originalname f \<noteq> []\<close> \<open>wrappedFileFilter filesLeft f = Inr l\<close> h' show ?thesis
          by (rule taken)
      qed
    qed
  qed
qed

lemma named_skip: "originalname f = [] \<Longrightarrow> named (f # rest) = named rest"
  by (simp add: named_def)

lemma named_keep: "originalname f \<noteq> [] \<Longrightarrow> named (f # rest) = f # named rest"
  by (simp add: named_def)















lemma multer_nothing:
  "named ps = [] \<Longrightarrow> multer_parts cfg env now ps filesLeft uploaded sv = (Inr uploaded, sv)"
proof (induction ps)
  case Nil
  then show ?case by simp
next
  case (Cons f ps)
  then have e: "originalname f = []" and "named ps = []"
    by (auto simp: named_def split: if_splits)
  then show ?case using Cons.IH by (simp only: multer_skip [OF e])
qed

lemma fits_Nil: "fits filesLeft []"
  by (simp add: fits_def)

lemma multer_accepted:
  "multer_parts cfg env now ps filesLeft uploaded sv = (Inr stored, sv') \<Longrightarrow>
   stored = uploaded @ stored_seq cfg env (uuid_calls sv) (named ps) \<and>
   list_all storable (named ps) \<and> fits filesLeft (named ps) \<and>
   uuid_calls sv' = uuid_calls sv + length (named ps)"
proof (induction ps arbitrary: filesLeft uploaded sv)
  case Nil
  then show ?case by (simp add: named_def fits_Nil)
next
  case (Cons f rest)
  show ?case
  proof (cases rule: multer_step_cases [where f = f and filesLeft = filesLeft and cfg = cfg and env = env and now = now and sv = sv])
    case skip
    have "multer_parts cfg env now rest filesLeft uploaded sv = (Inr stored, sv')"
      using Cons.prems by (simp only: multer_skip [OF skip])
    from Cons.IH [OF this] show ?thesis by (simp only: named_skip [OF skip])
  next
    case (filtered e)
    then show ?thesis using Cons.prems
      by (simp only: multer_filtered [OF filtered]) (simp add: abortWithError_def)
  next
    case (unwritten l e sv1)
    then show ?thesis using Cons.prems
      by (simp only: multer_unwritten [OF unwritten]) (simp add: abortWithError_def)
  next
    case (too_large l st sv1)
    then show ?thesis using Cons.prems
      by (simp only: multer_too_large [OF too_large]) (simp add: abortWithError_def)
  next
    case (taken l st sv1)
    have "multer_parts cfg env now rest l (uploaded @ [st]) sv1 = (Inr stored, sv')"
      using Cons.prems by (simp only: multer_taken [OF taken])
    note ih = Cons.IH [OF this]
    from handleFile_Inr [OF taken(3)]
    have st: "st = stored_at cfg env (uuid_calls sv) f" and k: "uuid_calls sv1 = Suc (uuid_calls sv)"
      using taken(4) by (simp_all add: stored_at_def min_def)
    have ok: "storable f"
      using wrappedFileFilter_Inr [OF taken(2)] taken(4) by (simp add: storable_def)
    from wrappedFileFilter_Inr_room [OF taken(2)] obtain n where
      n: "map_of filesLeft (fieldname f) = Some (Suc n)" and l: "l = AList.update (fieldname f) n filesLeft"
      by blast
    have "fits (AList.update (fieldname f) n filesLeft) (named rest)" using ih l by simp
    from fits_ConsI [OF n this] have ft: "fits filesLeft (f # named rest)" .
    show ?thesis
      using ih st k ok ft by (simp add: named_keep [OF taken(1)])
  qed
qed

lemma open_write_update:
  assumes "open_write env fs p = None" and "butlast p \<noteq> q" and "kind node = RegularFile"
  shows "open_write env (AList.update q node fs) p = None"
  using assms
  by (auto simp: open_write_def AList.update_conv' split: option.splits if_splits)

lemma multer_accepts:
  "fits filesLeft (named ps) \<Longrightarrow> list_all storable (named ps) \<Longrightarrow>
   \<forall>s \<in> set (stored_seq cfg env (uuid_calls sv) (named ps)).
      writable env (disk sv) s \<and> butlast (stored_path s) = UPLOAD_DIR cfg \<Longrightarrow>
   fst (multer_parts cfg env now ps filesLeft uploaded sv) =
     Inr (uploaded @ stored_seq cfg env (uuid_calls sv) (named ps))"
proof (induction ps arbitrary: filesLeft uploaded sv)
  case Nil
  then show ?case by (simp add: named_def)
next
  case (Cons f rest)
  show ?case
  proof (cases "originalname f = []")
    case True
    show ?thesis
      using Cons.IH [of filesLeft sv uploaded] Cons.prems
      by (simp only: multer_skip [OF True] named_skip [OF True])
  next
    case False
    let ?k = "uuid_calls sv"
    let ?st = "stored_at cfg env ?k f"
    let ?node = "\<lparr>kind = RegularFile, bytes = content_length f, mtimeMs = of_int now\<rparr>"
    let ?sv = "sv\<lparr>uuid_calls := Suc ?k, disk := AList.update (stored_path ?st) ?node (disk sv)\<rparr>"
    have nk: "named (f # rest) = f # named rest" using False by (rule named_keep)
    from fits_Cons [of filesLeft f "named rest"] Cons.prems(1)
    obtain n where n: "map_of filesLeft (fieldname f) = Some (Suc n)"
      and l: "fits (AList.update (fieldname f) n filesLeft) (named rest)" by (auto simp: nk)
    have ok: "allowed_part f" and sz: "content_length f < fileSize"
      using Cons.prems(2) by (simp_all add: nk storable_def)
    have rest: "list_all storable (named rest)"
      using Cons.prems(2) by (simp add: nk)
    have w: "wrappedFileFilter filesLeft f = Inr (AList.update (fieldname f) n filesLeft)"
      using n ok by (rule wrappedFileFilter_pass)
    have wr: "writable env (disk sv) ?st" and bl: "butlast (stored_path ?st) = UPLOAD_DIR cfg"
      using Cons.prems(3) by (simp_all add: nk)
    have h: "handleFile cfg env now f sv = (Inr ?st, ?sv)"
      using handleFile_writable [OF wr sz] .
    have ne: "stored_path ?st \<noteq> []" using wr by (auto simp: writable_def open_write_def)
    have qd: "stored_path ?st \<noteq> UPLOAD_DIR cfg"
    proof
      assume "stored_path ?st = UPLOAD_DIR cfg"
      then have "length (butlast (stored_path ?st)) = length (stored_path ?st)" using bl by simp
      then show False using ne by (simp add: length_butlast) (cases "stored_path ?st", simp_all)
    qed
    have later: "\<forall>s \<in> set (stored_seq cfg env (uuid_calls ?sv) (named rest)).
        writable env (disk ?sv) s \<and> butlast (stored_path s) = UPLOAD_DIR cfg"
    proof
      fix s assume "s \<in> set (stored_seq cfg env (uuid_calls ?sv) (named rest))"
      then have s: "s \<in> set (stored_seq cfg env ?k (named (f # rest)))" by (simp add: nk)
      then have ws: "writable env (disk sv) s" and bs: "butlast (stored_path s) = UPLOAD_DIR cfg"
        using Cons.prems(3) by blast+
      have "butlast (stored_path s) \<noteq> stored_path ?st" using bs qd by simp
      then have "open_write env (AList.update (stored_path ?st) ?node (disk sv)) (stored_path s) = None"
        using ws by (simp add: writable_def open_write_update)
      then show "writable env (disk ?sv) s \<and> butlast (stored_path s) = UPLOAD_DIR cfg"
        using ws bs by (simp add: writable_def)
    qed
    have "fst (multer_parts cfg env now rest (AList.update (fieldname f) n filesLeft) (uploaded @ [?st]) ?sv) =
        Inr ((uploaded @ [?st]) @ stored_seq cfg env (uuid_calls ?sv) (named rest))"
      using l rest later by (rule Cons.IH)
    then show ?thesis
      by (simp only: multer_taken [OF False w h sz] nk) simp
  qed
qed







lemma post_upload_authorized:
  assumes "requireBearer cfg req = None"
  shows "post_upload cfg env now req sv =
     (case multer_parts cfg env now (parts req) upload_fields [] sv of
        (Inl err, sv') \<Rightarrow> (default_error_handler err, sv')
      | (Inr stored, sv') \<Rightarrow>
          (case upload_handler cfg req stored of
             Inl err \<Rightarrow> (default_error_handler err, sv')
           | Inr res \<Rightarrow> (res, sv')))"
  using assms by (simp add: post_upload_def)





section \<open>Properties of accepted uploads\<close>

lemma unreserved_not_surrogate: "uri_unreserved c \<Longrightarrow> \<not> high_surrogate c \<and> \<not> low_surrogate c"
  by (auto simp: uri_unreserved_def high_surrogate_def low_surrogate_def js_def word_le_nat_alt)

lemma encode_total: "well_formed s \<Longrightarrow> encodeURIComponent s \<noteq> None"
proof (induction s rule: well_formed.induct)
  case 1
  then show ?case by simp
next
  case (2 c)
  then show ?case by simp
next
  case (3 c d cs)
  show ?case
  proof (cases "high_surrogate c")
    case True
    then have "\<not> uri_unreserved c" using unreserved_not_surrogate by blast
    then show ?thesis using True 3 by simp
  next
    case False
    then show ?thesis using 3 by simp
  qed
qed

lemma well_formed_Cons: "\<not> high_surrogate c \<Longrightarrow> \<not> low_surrogate c \<Longrightarrow> well_formed (c # s) = well_formed s"
  by (cases s) simp_all

lemma well_formed_plain: "list_all (\<lambda>c. \<not> high_surrogate c \<and> \<not> low_surrogate c) s \<Longrightarrow> well_formed s"
  by (induction s) (simp_all add: well_formed_Cons)

lemma well_formed_append: "well_formed xs \<Longrightarrow> well_formed ys \<Longrightarrow> well_formed (xs @ ys)"
proof (induction xs rule: well_formed.induct)
  case 1
  then show ?case by simp
next
  case (2 c)
  then show ?case by (simp add: well_formed_Cons)
next
  case (3 c d cs)
  then show ?case by (simp split: if_splits)
qed

lemma well_formed_split:
  "well_formed (xs @ c # ys) \<Longrightarrow> \<not> high_surrogate c \<Longrightarrow> \<not> low_surrogate c \<Longrightarrow>
   well_formed xs \<and> well_formed ys"
proof (induction xs rule: well_formed.induct)
  case 1
  then show ?case by (simp add: well_formed_Cons)
next
  case (2 x)
  then show ?case by (simp add: well_formed_Cons split: if_splits)
next
  case (3 x y zs)
  then show ?case by (simp split: if_splits)
qed

lemma slash_dot_plain:
  "\<not> high_surrogate slash \<and> \<not> low_surrogate slash \<and> \<not> high_surrogate dot \<and> \<not> low_surrogate dot"
  by (simp add: high_surrogate_def low_surrogate_def slash_def dot_def)

lemma last_portion_split:
  "\<exists>a s. p = a @ last_portion p @ s \<and> (s = [] \<or> hd s = slash) \<and> (a = [] \<or> last a = slash)"
proof -
  define s where "s = takeWhile (\<lambda>c. c = slash) (rev p)"
  define d where "d = dropWhile (\<lambda>c. c = slash) (rev p)"
  define b where "b = takeWhile (\<lambda>c. c \<noteq> slash) d"
  define a where "a = dropWhile (\<lambda>c. c \<noteq> slash) d"
  have sd: "s @ d = rev p" unfolding s_def d_def by (rule takeWhile_dropWhile_id)
  have ba: "b @ a = d" unfolding b_def a_def by (rule takeWhile_dropWhile_id)
  have "rev p = s @ b @ a" using sd ba by simp
  then have "rev (rev p) = rev (s @ b @ a)" by (rule arg_cong)
  then have p: "p = rev a @ rev b @ rev s" by simp
  have lp: "last_portion p = rev b" unfolding last_portion_def b_def d_def ..
  have "\<forall>c \<in> set s. c = slash" unfolding s_def by (auto dest: set_takeWhileD)
  then have "\<forall>c \<in> set (rev s). c = slash" by simp
  then have s1: "rev s = [] \<or> hd (rev s) = slash" by (cases "rev s") simp_all
  have a1: "rev a = [] \<or> last (rev a) = slash"
  proof (cases "a = []")
    case True
    then show ?thesis by simp
  next
    case False
    then have "hd a = slash" unfolding a_def using hd_dropWhile [of "\<lambda>c. c \<noteq> slash" d] by blast
    then show ?thesis using False by (simp add: last_rev)
  qed
  have "p = rev a @ last_portion p @ rev s" using p lp by simp
  then show ?thesis using s1 a1 by blast
qed

lemma well_formed_last_portion: "well_formed p \<Longrightarrow> well_formed (last_portion p)"
proof -
  assume w: "well_formed p"
  from last_portion_split [of p] obtain a s where p: "p = a @ last_portion p @ s"
    and s: "s = [] \<or> hd s = slash" and a: "a = [] \<or> last a = slash" by blast
  have w1: "well_formed (last_portion p @ s)"
  proof (cases "a = []")
    case True
    then show ?thesis using w p by simp
  next
    case False
    then have "a = butlast a @ [slash]" using a by (metis append_butlast_last_id)
    then have "p = butlast a @ slash # (last_portion p @ s)" using p by (metis append_Cons append_Nil append_assoc)
    then have "well_formed (butlast a @ slash # (last_portion p @ s))" using w by simp
    then show ?thesis using well_formed_split slash_dot_plain by blast
  qed
  show ?thesis
  proof (cases "s = []")
    case True
    then show ?thesis using w1 by simp
  next
    case False
    then have "s = slash # tl s" using s by (metis list.collapse)
    then have "well_formed (last_portion p @ slash # tl s)" using w1 by simp
    then show ?thesis using well_formed_split slash_dot_plain by blast
  qed
qed

lemma well_formed_extname: "well_formed p \<Longrightarrow> well_formed (extname p)"
proof (cases "extname p = []")
  case True
  then show ?thesis by simp
next
  case False
  assume w: "well_formed p"
  from False have m: "dot \<in> set (last_portion p)"
    and e: "extname p = dot # after_last dot (last_portion p)"
    by (auto simp: extname_def Let_def split: if_splits)
  from after_last_split [OF m] obtain pre where
    "last_portion p = pre @ dot # after_last dot (last_portion p)" by blast
  then have "well_formed (pre @ dot # after_last dot (last_portion p))"
    using well_formed_last_portion [OF w] by simp
  then have "well_formed (after_last dot (last_portion p))"
    using well_formed_split slash_dot_plain by blast
  then show ?thesis using e slash_dot_plain by (simp add: well_formed_Cons)
qed

lemma safe_unit_plain: "safe_unit c \<Longrightarrow> \<not> high_surrogate c \<and> \<not> low_surrogate c"
  by (auto simp: safe_unit_def isWordChar_def high_surrogate_def low_surrogate_def word_le_nat_alt)

lemma well_formed_namer_base: "well_formed (namer_base s)"
proof -
  have "list_all safe_unit (js ''file'')" by (simp add: js_def safe_unit_def isWordChar_def)
  then have "list_all safe_unit (namer_base s)"
    using sanitizeBaseName_safe [of s] by (simp add: namer_base_def)
  then have "list_all (\<lambda>c. \<not> high_surrogate c \<and> \<not> low_surrogate c) (namer_base s)"
    using safe_unit_plain by (auto simp: list_all_iff)
  then show ?thesis by (rule well_formed_plain)
qed

lemma well_formed_ALLOWED: "ALLOWED_at m = Some e \<Longrightarrow> well_formed e"
  by (auto simp: ALLOWED_at_def ALLOWED_def js_def high_surrogate_def low_surrogate_def split: if_splits)

lemma well_formed_namer_extension: "well_formed name \<Longrightarrow> well_formed (namer_extension name m)"
  by (auto simp: namer_extension_def well_formed_extname well_formed_ALLOWED split: option.splits)

lemma uuid_format_plain:
  "uuid_format u \<Longrightarrow> list_all (\<lambda>c. \<not> high_surrogate c \<and> \<not> low_surrogate c) u"
  by (auto simp: uuid_format_def list_all_iff js_def high_surrogate_def low_surrogate_def)

lemma uuid_format_no_dot: "uuid_format u \<Longrightarrow> dot \<notin> set u \<and> slash \<notin> set u"
  by (auto simp: uuid_format_def list_all_iff js_def dot_def slash_def)

lemma well_formed_underscore: "well_formed (js ''_'')"
  by (simp add: js_def high_surrogate_def low_surrogate_def)

lemma well_formed_storage_filename:
  assumes "well_formed (originalname f)" and "uuid_format u"
  shows "well_formed (storage_filename u f)"
proof -
  have "well_formed u" using uuid_format_plain [OF assms(2)] by (rule well_formed_plain)
  then show ?thesis
    using well_formed_namer_base well_formed_namer_extension [OF assms(1)] well_formed_underscore
    by (simp add: storage_filename_eq well_formed_append)
qed

lemma length_stored_seq: "length (stored_seq cfg env k ps) = length ps"
  by (induction ps arbitrary: k) simp_all

lemma namer_extension_no_slash: "slash \<notin> set (namer_extension name m)"
proof (cases "extname name = []")
  case True
  show ?thesis
  proof (cases "ALLOWED_at m")
    case None
    then show ?thesis using True by (simp add: namer_extension_def)
  next
    case (Some e)
    from ALLOWED_shape [OF Some] show ?thesis using True Some
      by (auto simp: namer_extension_def slash_def dot_def)
  qed
next
  case False
  then show ?thesis using extname_shape [of name]
    by (auto simp: namer_extension_def slash_def dot_def)
qed

lemma storage_filename_valid:
  assumes "slash \<notin> set u"
  shows "valid_name (storage_filename u f)"
proof -
  let ?b = "namer_base (basename (originalname f) (extname (originalname f)))"
  let ?e = "namer_extension (originalname f) (mimetype f)"
  have eq: "storage_filename u f = ?b @ js ''_'' @ u @ ?e" by (rule storage_filename_eq)
  have us: "0x5F \<in> set (storage_filename u f)" by (simp add: eq js_underscore)
  have "slash \<notin> set (storage_filename u f)"
    using namer_base_no_slash [of "basename (originalname f) (extname (originalname f))"]
      namer_extension_no_slash [of "originalname f" "mimetype f"] assms underscore_not_dot
    by (simp add: eq)
  moreover have "storage_filename u f \<noteq> []" using us by auto
  moreover have "storage_filename u f \<noteq> [dot]" using us by (auto simp: dot_def)
  moreover have "storage_filename u f \<noteq> [dot, dot]" using us by (auto simp: dot_def)
  ultimately show ?thesis by (simp add: valid_name_def)
qed

lemma encoded_exist:
  "\<forall>s \<in> set fs. encodeURIComponent (filename s) \<noteq> None \<Longrightarrow>
   \<exists>encoded. list_all2 (\<lambda>s e. encodeURIComponent (filename s) = Some e) fs encoded"
proof (induction fs)
  case Nil
  then show ?case by simp
next
  case (Cons a fs)
  then obtain encoded where e: "list_all2 (\<lambda>s e. encodeURIComponent (filename s) = Some e) fs encoded"
    by auto
  from Cons.prems obtain x where "encodeURIComponent (filename a) = Some x" by auto
  then have "list_all2 (\<lambda>s e. encodeURIComponent (filename s) = Some e) (a # fs) (x # encoded)"
    using e by simp
  then show ?case by blast
qed

lemma forEach_add_ok:
  "list_all2 (\<lambda>s e. encodeURIComponent (filename s) = Some e) fs encoded \<Longrightarrow>
   forEach_add host fs collected = Inr (collected @ map2 (entry host) fs encoded)"
proof (induction fs encoded arbitrary: collected rule: list_all2_induct)
  case Nil
  then show ?case by simp
next
  case (Cons s e fs encoded)
  then show ?case by (simp add: add_def)
qed

lemma upload_handler_ok:
  assumes "list_all2 (\<lambda>s e. encodeURIComponent (filename s) = Some e) (listed stored) encoded"
  shows "upload_handler cfg req stored =
     Inr (if listed stored = []
          then res_json 400 (JObject [(''error'', JString (js ''No files received''))])
          else res_json 200 (JObject [(''uploaded'', JArray (map2 (entry (request_host cfg req)) (listed stored) encoded))]))"
proof -
  let ?a = "req_files stored (js ''file'')"
  let ?b = "req_files stored (js ''files'')"
  let ?n = "length ?a"
  have len: "length encoded = length ?a + length ?b"
    using assms by (simp add: listed_def list_all2_lengthD [symmetric])
  have split: "encoded = take ?n encoded @ drop ?n encoded" by simp
  have la: "list_all2 (\<lambda>s e. encodeURIComponent (filename s) = Some e) ?a (take ?n encoded)"
    using assms list_all2_takeI [of _ "?a @ ?b" encoded ?n] by (simp add: listed_def)
  have lb: "list_all2 (\<lambda>s e. encodeURIComponent (filename s) = Some e) ?b (drop ?n encoded)"
    using assms list_all2_dropI [of _ "?a @ ?b" encoded ?n] by (simp add: listed_def)
  have z: "map2 (entry (request_host cfg req)) ?a (take ?n encoded) @
           map2 (entry (request_host cfg req)) ?b (drop ?n encoded) =
           map2 (entry (request_host cfg req)) (listed stored) encoded"
  proof -
    have "zip (?a @ ?b) (take ?n encoded @ drop ?n encoded) =
          zip ?a (take ?n encoded) @ zip ?b (drop ?n encoded)"
      by (rule zip_append) (use len in simp)
    then show ?thesis by (simp add: listed_def)
  qed
  have e: "length encoded = length (listed stored)"
    using assms by (simp add: list_all2_lengthD)
  show ?thesis
    using forEach_add_ok [OF la, of "request_host cfg req" "[]"]
      forEach_add_ok [OF lb, of "request_host cfg req"] z e
    by (simp add: upload_handler_def Let_def)
qed

lemma stored_seq_members:
  "s \<in> set (stored_seq cfg env k ps) \<Longrightarrow>
   \<exists>i f. k \<le> i \<and> i < k + length ps \<and> f \<in> set ps \<and> s = stored_at cfg env i f"
proof (induction ps arbitrary: k)
  case Nil
  then show ?case by simp
next
  case (Cons g rest)
  show ?case
  proof (cases "s = stored_at cfg env k g")
    case True
    then show ?thesis by force
  next
    case False
    then have "s \<in> set (stored_seq cfg env (Suc k) rest)" using Cons.prems by simp
    from Cons.IH [OF this] obtain i f where
      i: "Suc k \<le> i" "i < Suc k + length rest" and f: "f \<in> set rest" "s = stored_at cfg env i f"
      by blast
    have "k \<le> i" "i < k + length (g # rest)" "f \<in> set (g # rest)" using i f by simp_all
    then show ?thesis using f(2) by blast
  qed
qed

lemma map_part_stored_seq: "map part (stored_seq cfg env k ps) = ps"
  by (induction ps arbitrary: k) (simp_all add: stored_at_def)

lemma last_dot_unique:
  fixes d :: unit16
  assumes "x @ d # s = y @ d # t" and "d \<notin> set s" and "d \<notin> set t"
  shows "x = y \<and> s = t"
proof -
  have "after_last d (x @ d # s) = s" using assms(2) by (rule after_last_append)
  moreover have "after_last d (y @ d # t) = t" using assms(3) by (rule after_last_append)
  ultimately have "s = t" using assms(1) by simp
  then show ?thesis using assms(1) by simp
qed

lemma storage_filename_inj:
  assumes "allowed_part f" and "allowed_part g" and "uuid_format u" and "uuid_format v"
    and "storage_filename u f = storage_filename v g"
  shows "u = v"
proof -
  from assms(1) obtain e1 where e1: "ALLOWED_at (mimetype f) = Some e1"
    using allow_list_keys [of "mimetype f"] by (auto simp: allowed_part_def)
  from assms(2) obtain e2 where e2: "ALLOWED_at (mimetype g) = Some e2"
    using allow_list_keys [of "mimetype g"] by (auto simp: allowed_part_def)
  from namer_extension_shape [OF e1, of "originalname f"] obtain t1 where
    t1: "namer_extension (originalname f) (mimetype f) = dot # t1" and d1: "dot \<notin> set t1" by blast
  from namer_extension_shape [OF e2, of "originalname g"] obtain t2 where
    t2: "namer_extension (originalname g) (mimetype g) = dot # t2" and d2: "dot \<notin> set t2" by blast
  let ?b1 = "namer_base (basename (originalname f) (extname (originalname f)))"
  let ?b2 = "namer_base (basename (originalname g) (extname (originalname g)))"
  have du: "dot \<notin> set u" and dv: "dot \<notin> set v"
    using uuid_format_no_dot assms(3,4) by blast+
  have "(?b1 @ js ''_'' @ u) @ dot # t1 = (?b2 @ js ''_'' @ v) @ dot # t2"
    using assms(5) by (simp add: storage_filename_eq t1 t2)
  from last_dot_unique [OF this d1 d2]
  have "(?b1 @ js ''_'') @ u = (?b2 @ js ''_'') @ v" by simp
  moreover have "length u = length v" using assms(3,4) by (simp add: uuid_format_def)
  ultimately show "u = v" by simp
qed

lemma distinct_stored_names:
  assumes "distinct (map (uuids env) [k ..< k + length ps])"
    and "list_all uuid_format (map (uuids env) [k ..< k + length ps])"
    and "list_all allowed_part ps"
  shows "distinct (map filename (stored_seq cfg env k ps))"
  using assms
proof (induction ps arbitrary: k)
  case Nil
  then show ?case by simp
next
  case (Cons f rest)
  have up: "[k ..< k + length (f # rest)] = k # [Suc k ..< Suc k + length rest]"
    by (subst upt_rec) simp
  have "uuids env k \<notin> set (map (uuids env) [Suc k ..< Suc k + length rest]) \<and>
        distinct (map (uuids env) [Suc k ..< Suc k + length rest])"
    using Cons.prems(1) by (simp only: up list.map distinct.simps simp_thms)
  then have d: "distinct (map (uuids env) [Suc k ..< Suc k + length rest])"
    and fresh: "uuids env k \<notin> set (map (uuids env) [Suc k ..< Suc k + length rest])"
    by blast+
  have "uuid_format (uuids env k) \<and>
        list_all uuid_format (map (uuids env) [Suc k ..< Suc k + length rest])"
    using Cons.prems(2) by (simp only: up list.map list.pred_inject simp_thms)
  then have u: "list_all uuid_format (map (uuids env) [Suc k ..< Suc k + length rest])"
    and uk: "uuid_format (uuids env k)"
    by blast+
  have a: "list_all allowed_part rest" and af: "allowed_part f"
    using Cons.prems(3) by simp_all
  have "filename (stored_at cfg env k f) \<notin> set (map filename (stored_seq cfg env (Suc k) rest))"
  proof
    assume "filename (stored_at cfg env k f) \<in> set (map filename (stored_seq cfg env (Suc k) rest))"
    then obtain s where s: "s \<in> set (stored_seq cfg env (Suc k) rest)"
      and eq: "filename s = filename (stored_at cfg env k f)" by auto
    from stored_seq_members [OF s] obtain i g where i: "Suc k \<le> i" "i < Suc k + length rest"
      and g: "g \<in> set rest" and sg: "s = stored_at cfg env i g" by blast
    have "i \<in> set [Suc k ..< Suc k + length rest]" using i by (simp only: set_upt atLeastLessThan_iff)
    then have mem: "uuids env i \<in> set (map (uuids env) [Suc k ..< Suc k + length rest])"
      by (simp only: set_map) (rule imageI)
    have ui: "uuid_format (uuids env i)" using u mem by (auto simp: list_all_iff)
    have ag: "allowed_part g" using a g by (simp add: list_all_iff)
    have "storage_filename (uuids env i) g = storage_filename (uuids env k) f"
      using eq sg by (simp add: stored_at_def)
    from storage_filename_inj [OF ag af ui uk this] have "uuids env i = uuids env k" .
    then show False using fresh mem by simp
  qed
  then show ?case using Cons.IH [OF d u a] by simp
qed

lemma stored_seq_paths:
  assumes "list_all uuid_format (map (uuids env) [k ..< k + length ps])"
    and "s \<in> set (stored_seq cfg env k ps)"
  shows "stored_path s = UPLOAD_DIR cfg @ [filename s]"
proof -
  from stored_seq_members [OF assms(2)] obtain i f where i: "k \<le> i" "i < k + length ps"
    and s: "s = stored_at cfg env i f" by blast
  have "i \<in> set [k ..< k + length ps]" using i by (simp only: set_upt atLeastLessThan_iff)
  then have "uuids env i \<in> set (map (uuids env) [k ..< k + length ps])"
    by (simp only: set_map) (rule imageI)
  then have "uuid_format (uuids env i)" using assms(1) by (auto simp: list_all_iff)
  then have "slash \<notin> set (uuids env i)" using uuid_format_no_dot by blast
  then have "valid_name (storage_filename (uuids env i) f)" by (rule storage_filename_valid)
  then show ?thesis using s by (simp add: stored_at_def path_join_valid)
qed

lemma req_files_count:
  "length (req_files stored name) = length (filter (\<lambda>f. fieldname f = name) (map part stored))"
  by (simp add: req_files_def filter_map comp_def)

lemma fields_fit_listed:
  assumes "fields_fit ps" and "map part stored = ps"
  shows "length (listed stored) = length ps \<and> set (listed stored) = set stored \<and> length ps \<le> 21"
proof -
  have known: "\<And>f. f \<in> set ps \<Longrightarrow> fieldname f = js ''file'' \<or> fieldname f = js ''files''"
    using assms(1) by (auto simp: fields_fit_def list_all_iff upload_fields_def split: if_splits)
  have ne: "js ''file'' \<noteq> js ''files''" by (simp add: js_def)
  have k2: "\<And>s. s \<in> set stored \<Longrightarrow> fieldname (part s) = js ''file'' \<or> fieldname (part s) = js ''files''"
    using known assms(2) by force
  have c1: "length (filter (\<lambda>f. fieldname f = js ''file'') ps) \<le> 1"
    and c2: "length (filter (\<lambda>f. fieldname f = js ''files'') ps) \<le> 20"
    using assms(1) by (simp_all add: fields_fit_def upload_fields_def)
  have "length (filter (\<lambda>s. fieldname (part s) = js ''file'') stored) +
        length (filter (\<lambda>s. \<not> fieldname (part s) = js ''file'') stored) = length stored"
    by (rule sum_length_filter_compl)
  moreover have "filter (\<lambda>s. \<not> fieldname (part s) = js ''file'') stored =
        filter (\<lambda>s. fieldname (part s) = js ''files'') stored"
    by (rule filter_cong) (use k2 ne in auto)
  ultimately have len: "length (listed stored) = length stored"
    by (simp add: listed_def req_files_def)
  have ls: "length stored = length ps" using assms(2) by (metis length_map)
  have f1: "filter (\<lambda>f. fieldname f = js ''file'') ps = map part (filter (\<lambda>s. fieldname (part s) = js ''file'') stored)"
    using assms(2) by (simp add: filter_map comp_def flip: assms(2))
  have f2: "filter (\<lambda>f. fieldname f = js ''files'') ps = map part (filter (\<lambda>s. fieldname (part s) = js ''files'') stored)"
    using assms(2) by (simp add: filter_map comp_def flip: assms(2))
  have "length (listed stored) \<le> 21"
    using c1 c2 by (simp add: listed_def req_files_def f1 f2)
  moreover have "set (listed stored) = set stored"
    using k2 by (auto simp: listed_def req_files_def)
  ultimately show ?thesis using len ls by simp
qed

lemma distinct_listed: "distinct (map filename stored) \<Longrightarrow> distinct (map filename (listed stored))"
proof -
  assume d: "distinct (map filename stored)"
  have ne: "js ''file'' \<noteq> js ''files''" by (simp add: js_def)
  have a: "distinct (map filename (req_files stored (js ''file'')))"
    and b: "distinct (map filename (req_files stored (js ''files'')))"
    using d by (simp_all add: req_files_def distinct_map_filter)
  have "set (map filename (req_files stored (js ''file''))) \<inter>
        set (map filename (req_files stored (js ''files''))) = {}"
  proof (rule ccontr)
    assume "\<not> ?thesis"
    then obtain s t where s: "s \<in> set stored" "fieldname (part s) = js ''file''"
      and t: "t \<in> set stored" "fieldname (part t) = js ''files''" and e: "filename s = filename t"
      by (auto simp: req_files_def)
    have "inj_on filename (set stored)" using d by (simp add: distinct_map)
    then have "s = t" using s(1) t(1) e by (meson inj_onD)
    then show False using s(2) t(2) ne by simp
  qed
  then show ?thesis using a b by (simp add: listed_def)
qed

lemma stored_names_encodable:
  assumes "list_all (\<lambda>f. well_formed (originalname f)) ps"
    and "list_all uuid_format (map (uuids env) [k ..< k + length ps])"
    and "s \<in> set (stored_seq cfg env k ps)"
  shows "encodeURIComponent (filename s) \<noteq> None"
proof -
  from stored_seq_members [OF assms(3)] obtain i f where i: "k \<le> i" "i < k + length ps"
    and f: "f \<in> set ps" and s: "s = stored_at cfg env i f" by blast
  have "i \<in> set [k ..< k + length ps]" using i by (simp only: set_upt atLeastLessThan_iff)
  then have "uuids env i \<in> set (map (uuids env) [k ..< k + length ps])"
    by (simp only: set_map) (rule imageI)
  then have u: "uuid_format (uuids env i)" using assms(2) by (auto simp: list_all_iff)
  have w: "well_formed (originalname f)" using assms(1) f by (simp add: list_all_iff)
  have "well_formed (filename s)"
    using well_formed_storage_filename [OF w u] s by (simp add: stored_at_def)
  then show ?thesis by (rule encode_total)
qed

lemma post_upload_stored:
  assumes "requireBearer cfg req = None"
    and "fst (multer_parts cfg env now (parts req) upload_fields [] sv) = Inr stored"
    and "upload_handler cfg req stored = Inr res"
  shows "fst (post_upload cfg env now req sv) = res"
  using assms(2,3)
  by (cases "multer_parts cfg env now (parts req) upload_fields [] sv")
    (simp add: post_upload_authorized [OF assms(1)])

lemma multer_accepted_files:
  assumes "fst (multer_parts cfg env now ps upload_fields [] sv) = Inr stored"
  shows "stored = stored_seq cfg env (uuid_calls sv) (named ps) \<and>
         list_all storable (named ps) \<and> fields_fit (named ps) \<and> length stored = length (named ps)"
proof -
  obtain sv' where "multer_parts cfg env now ps upload_fields [] sv = (Inr stored, sv')"
    using assms by (cases "multer_parts cfg env now ps upload_fields [] sv") simp
  from multer_accepted [OF this]
  have s: "stored = stored_seq cfg env (uuid_calls sv) (named ps)"
    and a: "list_all storable (named ps)" and f: "fits upload_fields (named ps)" by simp_all
  show ?thesis using s a fits_fields_fit [OF f] by (simp add: length_stored_seq)
qed

lemma handler_no_files:
  "upload_handler cfg req [] =
     Inr (res_json 400 (JObject [(''error'', JString (js ''No files received''))]))"
proof -
  have l: "listed [] = []" by (simp add: listed_def req_files_def)
  have "list_all2 (\<lambda>s e. encodeURIComponent (filename s) = Some e) (listed []) []"
    by (simp add: l)
  from upload_handler_ok [OF this, of cfg req] show ?thesis by (simp add: l)
qed

lemma stored_seq_writable:
  assumes "list_all uuid_format (map (uuids env) [k ..< k + length ps])"
    and "list_all (writable env fs) (stored_seq cfg env k ps)"
  shows "\<forall>s \<in> set (stored_seq cfg env k ps).
           writable env fs s \<and> butlast (stored_path s) = UPLOAD_DIR cfg"
proof
  fix s assume s: "s \<in> set (stored_seq cfg env k ps)"
  have "stored_path s = UPLOAD_DIR cfg @ [filename s]" using assms(1) s by (rule stored_seq_paths)
  then have "butlast (stored_path s) = UPLOAD_DIR cfg" by simp
  then show "writable env fs s \<and> butlast (stored_path s) = UPLOAD_DIR cfg"
    using assms(2) s by (simp add: list_all_iff)
qed

text \<open>
  Claim C5. For a request with the right bearer token. Whenever multer accepts the
  request, the files it hands to the handler are those of the parts that came with a
  filename, in arrival order, each under the name the Storage Namer gave it and with
  the size of its part; each of these parts is of an allowed type and shorter than
  the size limit; at most one of them is of the field \<open>file\<close> and at most twenty of
  the field \<open>files\<close>, so they are N, at most 21. When N is zero the answer is 400
  \<open>No files received\<close> and the server is left as it was. When N is at least one, the
  original filenames are well-formed and the identifiers drawn are version 4 UUIDs,
  the answer is 200 with an \<open>uploaded\<close> array of exactly N entries, one for each stored
  file (those of \<open>file\<close> first), each holding the url built from the encoded stored
  filename, the stored filename, the size in bytes and the declared type of its part.
  When the identifiers are also different from each other, the N filenames are
  pairwise different. And multer accepts the request when the parts with a filename
  respect the fields and their counts, are of an allowed type and shorter than the
  size limit, and each stored name holds no NUL and can be opened for writing.
\<close>

theorem upload_response:
  assumes "TOKEN cfg \<noteq> []"
    and "req_get req (js ''authorization'') = Some (js ''Bearer '' @ TOKEN cfg)"
  shows "(\<forall>stored.
      fst (multer_parts cfg env now (parts req) upload_fields [] sv) = Inr stored \<longrightarrow>
        stored = stored_seq cfg env (uuid_calls sv) (named (parts req)) \<and>
        list_all storable (named (parts req)) \<and>
        length (req_files stored (js ''file'')) \<le> 1 \<and>
        length (req_files stored (js ''files'')) \<le> 20 \<and>
        length stored \<le> 21 \<and>
        length (listed stored) = length stored \<and> set (listed stored) = set stored \<and>
        (stored = [] \<longrightarrow>
           post_upload cfg env now req sv =
             (res_json 400 (JObject [(''error'', JString (js ''No files received''))]), sv)) \<and>
        (stored \<noteq> [] \<and>
         list_all (\<lambda>f. well_formed (originalname f)) (named (parts req)) \<and>
         list_all uuid_format (map (uuids env) [uuid_calls sv ..< uuid_calls sv + length stored]) \<longrightarrow>
           (\<exists>encoded.
              list_all2 (\<lambda>s e. encodeURIComponent (filename s) = Some e) (listed stored) encoded \<and>
              length encoded = length stored \<and>
              fst (post_upload cfg env now req sv) =
                res_json 200 (JObject [(''uploaded'',
                  JArray (map2 (entry (request_host cfg req)) (listed stored) encoded))]))) \<and>
        (list_all uuid_format (map (uuids env) [uuid_calls sv ..< uuid_calls sv + length stored]) \<and>
         distinct (map (uuids env) [uuid_calls sv ..< uuid_calls sv + length stored]) \<longrightarrow>
           distinct (map filename (listed stored)))) \<and>
    (fields_fit (named (parts req)) \<and> list_all storable (named (parts req)) \<and>
     list_all uuid_format
       (map (uuids env) [uuid_calls sv ..< uuid_calls sv + length (named (parts req))]) \<and>
     list_all (writable env (disk sv)) (stored_seq cfg env (uuid_calls sv) (named (parts req))) \<longrightarrow>
       fst (multer_parts cfg env now (parts req) upload_fields [] sv) =
         Inr (stored_seq cfg env (uuid_calls sv) (named (parts req))))"
proof (intro conjI allI impI)
  have auth: "requireBearer cfg req = None" using assms by (rule requireBearer_pass)
  let ?ps = "named (parts req)"
  let ?k = "uuid_calls sv"
  {
    fix stored
    assume m: "fst (multer_parts cfg env now (parts req) upload_fields [] sv) = Inr stored"
    from multer_accepted_files [OF m]
    have st: "stored = stored_seq cfg env ?k ?ps" and ok: "list_all storable ?ps"
      and ff: "fields_fit ?ps" and len: "length stored = length ?ps" by blast+
    have mp: "map part stored = ?ps" using st by (simp add: map_part_stored_seq)
    note fl = fields_fit_listed [OF ff mp]
    show "stored = stored_seq cfg env ?k ?ps" by (rule st)
    show "list_all storable ?ps" by (rule ok)
    show "length (req_files stored (js ''file'')) \<le> 1"
      using ff by (simp add: req_files_count mp fields_fit_def upload_fields_def)
    show "length (req_files stored (js ''files'')) \<le> 20"
      using ff by (simp add: req_files_count mp fields_fit_def upload_fields_def)
    show "length stored \<le> 21" using fl len by simp
    show "length (listed stored) = length stored" using fl len by simp
    show "set (listed stored) = set stored" using fl by blast
    {
      assume e: "stored = []"
      then have "?ps = []" using len by simp
      then have "multer_parts cfg env now (parts req) upload_fields [] sv = (Inr [], sv)"
        by (rule multer_nothing)
      then show "post_upload cfg env now req sv =
          (res_json 400 (JObject [(''error'', JString (js ''No files received''))]), sv)"
        by (simp add: post_upload_authorized [OF auth] handler_no_files)
    }
    {
      assume h: "stored \<noteq> [] \<and> list_all (\<lambda>f. well_formed (originalname f)) ?ps \<and>
         list_all uuid_format (map (uuids env) [?k ..< ?k + length stored])"
      then have ne: "stored \<noteq> []" and wf: "list_all (\<lambda>f. well_formed (originalname f)) ?ps"
        and uf: "list_all uuid_format (map (uuids env) [?k ..< ?k + length ?ps])"
        using len by simp_all
      have "\<forall>s \<in> set (stored_seq cfg env ?k ?ps). encodeURIComponent (filename s) \<noteq> None"
        using stored_names_encodable [OF wf uf] by blast
      then have "\<forall>s \<in> set (listed stored). encodeURIComponent (filename s) \<noteq> None"
        using fl st by simp
      from encoded_exist [OF this] obtain encoded where
        en: "list_all2 (\<lambda>s e. encodeURIComponent (filename s) = Some e) (listed stored) encoded"
        by blast
      have le: "length encoded = length stored"
        using list_all2_lengthD [OF en] fl len by simp
      have "listed stored \<noteq> []" using fl len ne by (metis length_0_conv)
      then have "upload_handler cfg req stored =
          Inr (res_json 200 (JObject [(''uploaded'',
            JArray (map2 (entry (request_host cfg req)) (listed stored) encoded))]))"
        using upload_handler_ok [OF en, of cfg req] by simp
      from post_upload_stored [OF auth m this]
      have "fst (post_upload cfg env now req sv) =
          res_json 200 (JObject [(''uploaded'',
            JArray (map2 (entry (request_host cfg req)) (listed stored) encoded))])" .
      then show "\<exists>encoded.
              list_all2 (\<lambda>s e. encodeURIComponent (filename s) = Some e) (listed stored) encoded \<and>
              length encoded = length stored \<and>
              fst (post_upload cfg env now req sv) =
                res_json 200 (JObject [(''uploaded'',
                  JArray (map2 (entry (request_host cfg req)) (listed stored) encoded))])"
        using en le by blast
    }
    {
      assume h: "list_all uuid_format (map (uuids env) [?k ..< ?k + length stored]) \<and>
         distinct (map (uuids env) [?k ..< ?k + length stored])"
      then have uf: "list_all uuid_format (map (uuids env) [?k ..< ?k + length ?ps])"
        and ud: "distinct (map (uuids env) [?k ..< ?k + length ?ps])"
        using len by simp_all
      have "list_all allowed_part ?ps" using ok by (simp add: storable_def list_all_iff)
      from distinct_stored_names [OF ud uf this]
      have "distinct (map filename stored)" using st by simp
      then show "distinct (map filename (listed stored))" by (rule distinct_listed)
    }
  }
  assume h: "fields_fit ?ps \<and> list_all storable ?ps \<and>
     list_all uuid_format (map (uuids env) [?k ..< ?k + length ?ps]) \<and>
     list_all (writable env (disk sv)) (stored_seq cfg env ?k ?ps)"
  then have ff: "fields_fit ?ps" and ok: "list_all storable ?ps"
    and uf: "list_all uuid_format (map (uuids env) [?k ..< ?k + length ?ps])"
    and wr: "list_all (writable env (disk sv)) (stored_seq cfg env ?k ?ps)" by blast+
  from multer_accepts [OF fields_fit_fits [OF ff] ok stored_seq_writable [OF uf wr], of now "[]"]
  show "fst (multer_parts cfg env now (parts req) upload_fields [] sv) =
         Inr (stored_seq cfg env ?k ?ps)" by simp
qed

theorem upload_response_witness:
  "post_upload cfg0 env0 1000 req_none sv0 =
     (\<lparr>status = 400, body = Json (JObject [(''error'', JString (js ''No files received''))])\<rparr>, sv0) \<and>
   fst (multer_parts cfg0 env0 1000 (parts req_two) upload_fields [] sv0) =
     Inr (stored_seq cfg0 env0 0 [noext_part, photo_part]) \<and>
   fst (post_upload cfg0 env0 1000 req_two sv0) =
     \<lparr>status = 200, body = Json (JObject [(''uploaded'', JArray
        [JObject [(''url'', JString (js ''https://h.example/files/my_photo_7c9e6679-7425-40de-944b-e07fc1f90ae7.png'')),
                  (''filename'', JString (js ''my_photo_7c9e6679-7425-40de-944b-e07fc1f90ae7.png'')),
                  (''size'', JNumber 1024),
                  (''mimetype'', JString (js ''image/png''))],
         JObject [(''url'', JString (js ''https://h.example/files/clip_0f8fad5b-d9cb-469f-a165-70867728950e.mp4'')),
                  (''filename'', JString (js ''clip_0f8fad5b-d9cb-469f-a165-70867728950e.mp4'')),
                  (''size'', JNumber 7),
                  (''mimetype'', JString (js ''video/mp4''))]])])\<rparr> \<and>
   length (listed (stored_seq cfg0 env0 0 [noext_part, photo_part])) = 2 \<and>
   distinct (map filename (listed (stored_seq cfg0 env0 0 [noext_part, photo_part])))"
proof -
  let ?stored = "stored_seq cfg0 env0 0 [noext_part, photo_part]"
  have h1: "TOKEN cfg0 \<noteq> []" by code_simp
  have h2: "req_get req_none (js ''authorization'') = Some (js ''Bearer '' @ TOKEN cfg0)" by code_simp
  have h3: "req_get req_two (js ''authorization'') = Some (js ''Bearer '' @ TOKEN cfg0)" by code_simp
  have m0: "fst (multer_parts cfg0 env0 1000 (parts req_none) upload_fields [] sv0) = Inr []" by code_simp
  have hb: "fields_fit (named (parts req_two)) \<and> list_all storable (named (parts req_two)) \<and>
     list_all uuid_format
       (map (uuids env0) [uuid_calls sv0 ..< uuid_calls sv0 + length (named (parts req_two))]) \<and>
     list_all (writable env0 (disk sv0)) (stored_seq cfg0 env0 (uuid_calls sv0) (named (parts req_two)))"
    by code_simp
  have s: "stored_seq cfg0 env0 (uuid_calls sv0) (named (parts req_two)) = ?stored" by code_simp
  have u: "list_all uuid_format (map (uuids env0) [uuid_calls sv0 ..< uuid_calls sv0 + length ?stored]) \<and>
      distinct (map (uuids env0) [uuid_calls sv0 ..< uuid_calls sv0 + length ?stored])" by code_simp
  have n: "length ?stored = 2" by code_simp
  have v: "fst (post_upload cfg0 env0 1000 req_two sv0) =
     \<lparr>status = 200, body = Json (JObject [(''uploaded'', JArray
        [JObject [(''url'', JString (js ''https://h.example/files/my_photo_7c9e6679-7425-40de-944b-e07fc1f90ae7.png'')),
                  (''filename'', JString (js ''my_photo_7c9e6679-7425-40de-944b-e07fc1f90ae7.png'')),
                  (''size'', JNumber 1024),
                  (''mimetype'', JString (js ''image/png''))],
         JObject [(''url'', JString (js ''https://h.example/files/clip_0f8fad5b-d9cb-469f-a165-70867728950e.mp4'')),
                  (''filename'', JString (js ''clip_0f8fad5b-d9cb-469f-a165-70867728950e.mp4'')),
                  (''size'', JNumber 7),
                  (''mimetype'', JString (js ''video/mp4''))]])])\<rparr>"
    by code_simp
  note t0 = upload_response [OF h1 h2, of env0 1000 sv0]
  note t = upload_response [OF h1 h3, of env0 1000 sv0]
  from t0 [THEN conjunct1, THEN spec, THEN mp, OF m0]
  have "post_upload cfg0 env0 1000 req_none sv0 =
     (res_json 400 (JObject [(''error'', JString (js ''No files received''))]), sv0)" by blast
  then have a: "post_upload cfg0 env0 1000 req_none sv0 =
     (\<lparr>status = 400, body = Json (JObject [(''error'', JString (js ''No files received''))])\<rparr>, sv0)"
    by (simp only: res_json_def)
  from t [THEN conjunct2, THEN mp, OF hb]
  have m: "fst (multer_parts cfg0 env0 1000 (parts req_two) upload_fields [] sv0) = Inr ?stored"
    by (simp only: s)
  note c = t [THEN conjunct1, THEN spec, THEN mp, OF m]
  from c have "length (listed ?stored) = length ?stored" by blast
  then have b: "length (listed ?stored) = 2" using n by (rule trans)
  from c u have d: "distinct (map filename (listed ?stored))" by blast
  show ?thesis using a m v b d by blast
qed

end
